theory Spec2Isabelle
  imports Main "HOL-Library.AList" "HOL-Library.Multiset"
begin

section \<open>Try On Quiz: the data of data.json\<close>

text \<open>
  The page script \<^verbatim>\<open>app.js\<close> loads one JSON document with the keys \<^verbatim>\<open>shoes\<close> and
  \<^verbatim>\<open>questions\<close>. A shoe is an object with an \<^verbatim>\<open>id\<close> and a \<^verbatim>\<open>name\<close>; a question has an
  \<^verbatim>\<open>id\<close>, a \<^verbatim>\<open>copy\<close> and its \<^verbatim>\<open>answers\<close>; an answer has a \<^verbatim>\<open>copy\<close>, an optional
  \<^verbatim>\<open>ratingIncrease\<close> object and an optional \<^verbatim>\<open>nextQuestion\<close>. The script reads no other
  key of a shoe than these two (a tile shows the id and the name), so a shoe is modelled
  by them.

  The repository holds two copies of the script that differ in a few lines. This theory
  follows the first one, in which \<^verbatim>\<open>renderQuestionScreen\<close> records
  \<^verbatim>\<open>state.currentQuestionId\<close> and \<^verbatim>\<open>handleAnswerClick\<close> switches to the loading screen without
  a fade.

  The numbers of the data file (question ids, rating increases) are whole numbers. They
  are modelled by integers; the arithmetic that the script does on them is the rounding
  arithmetic of the next section.
\<close>

record shoe =
  shoe_id :: string
  shoe_name :: string

text \<open>
  The value of \<^verbatim>\<open>answer.nextQuestion\<close>: the key may be missing (\<^verbatim>\<open>undefined\<close>), hold
  \<^verbatim>\<open>null\<close>, hold the empty string, or hold the number of the next question.
\<close>

datatype next_question = Undefined | Null | EmptyString | QuestionNo int

text \<open>
  \<^verbatim>\<open>ratingIncrease\<close> is a JSON object: its own keys are pairwise different, and the field
  holds the pairs in the order in which \<^verbatim>\<open>Object.entries\<close> lists them. \<open>None\<close> stands for a
  missing or \<^verbatim>\<open>null\<close> value.
\<close>

record answer =
  a_copy :: string
  ratingIncrease :: "(string \<times> int) list option"
  nextQuestion :: next_question

record question =
  q_id :: int
  q_copy :: string
  answers :: "answer list"

record dataset =
  shoes :: "shoe list"
  questions :: "question list"

section \<open>Numbers and object keys of JavaScript\<close>

text \<open>
  A JavaScript number is an IEEE-754 double. The numbers of this script are whole
  numbers, so they are modelled by integers, and \<^verbatim>\<open>+\<close> and \<^verbatim>\<open>-\<close> by the exact sum or
  difference rounded to the nearest double: a whole number of magnitude at most \<open>2^53\<close> is
  a double, a larger one is rounded to 53 significant bits, to the even one of two
  nearest neighbours. (From \<open>2^1024\<close> on JavaScript has \<^verbatim>\<open>Infinity\<close>; such sums are
  outside the model.) \<open>bit_length n\<close> is the number of binary digits of \<open>n\<close>, and \<open>ulp n\<close>
  the distance between the doubles around \<open>n\<close>.
\<close>

function bit_length :: "int \<Rightarrow> nat" where
  "bit_length n = (if n \<le> 0 then 0 else Suc (bit_length (n div 2)))"
  by pat_completeness auto
termination
  by (relation "measure nat") auto

declare bit_length.simps [simp del]

definition ulp :: "int \<Rightarrow> int" where
  "ulp n = (if \<bar>n\<bar> \<le> 2 ^ 53 then 1 else 2 ^ (bit_length \<bar>n\<bar> - 53))"

definition round_double :: "int \<Rightarrow> int" where
  "round_double n =
     (let q = ulp n; lo = (n div q) * q; r = n - lo
      in if 2 * r < q then lo
         else if q < 2 * r then lo + q
         else if even (n div q) then lo else lo + q)"

definition js_add :: "int \<Rightarrow> int \<Rightarrow> int" where
  "js_add a b = round_double (a + b)"

definition js_sub :: "int \<Rightarrow> int \<Rightarrow> int" where
  "js_sub a b = round_double (a - b)"

text \<open>
  The own keys of an ordinary object are listed (by \<^verbatim>\<open>Object.keys\<close>, \<^verbatim>\<open>Object.entries\<close>,
  \<^verbatim>\<open>for in\<close>) with the array indices first, in ascending numeric order, and then the
  other strings in the order in which they were created. An array index is a decimal
  numeral without a sign or leading zeros whose value is at most \<open>2^32 - 2\<close>. An object
  is modelled by the list of its entries in that order; \<open>js_set\<close> is the assignment
  \<^verbatim>\<open>obj[k] = v\<close>, which replaces the value of an existing key in place and puts a new key
  where the order wants it, and reading a key is \<^const>\<open>map_of\<close>.
\<close>

definition is_digit :: "char \<Rightarrow> bool" where
  "is_digit c \<longleftrightarrow> 48 \<le> (of_char c :: int) \<and> (of_char c :: int) \<le> 57"

definition decimal :: "string \<Rightarrow> int" where
  "decimal k = foldl (\<lambda>n c. 10 * n + (of_char c - 48)) 0 k"

definition index_of_key :: "string \<Rightarrow> int option" where
  "index_of_key k =
     (if k \<noteq> [] \<and> list_all is_digit k \<and> (hd k \<noteq> CHR ''0'' \<or> k = ''0'')
         \<and> decimal k \<le> 4294967294
      then Some (decimal k) else None)"

definition comes_before :: "int \<Rightarrow> string \<times> 'v \<Rightarrow> bool" where
  "comes_before i e = (case index_of_key (fst e) of None \<Rightarrow> False | Some j \<Rightarrow> j < i)"

definition js_set :: "string \<Rightarrow> 'v \<Rightarrow> (string \<times> 'v) list \<Rightarrow> (string \<times> 'v) list" where
  "js_set k v obj =
     (if map_of obj k \<noteq> None then AList.update k v obj
      else (case index_of_key k of
              None \<Rightarrow> obj @ [(k, v)]
            | Some i \<Rightarrow> takeWhile (comes_before i) obj @ (k, v) # dropWhile (comes_before i) obj))"

section \<open>Helpers\<close>

text \<open>
  \<^verbatim>\<open>buildQuestionsMap\<close>: a \<^verbatim>\<open>Map\<close> filled by \<^verbatim>\<open>map.set(q.id, q)\<close> for each question in
  turn. A JavaScript \<^verbatim>\<open>Map\<close> keeps one entry per key, in the order in which the keys were
  first set; setting a key again replaces the value in place. That is
  \<^const>\<open>AList.update\<close> on the list of entries, and \<^verbatim>\<open>map.get\<close> is \<^const>\<open>map_of\<close>.
\<close>

definition buildQuestionsMap :: "question list \<Rightarrow> (int \<times> question) list" where
  "buildQuestionsMap qs = fold (\<lambda>q m. AList.update (q_id q) q m) qs []"

text \<open>
  \<^verbatim>\<open>createInitialRatings\<close>: \<^verbatim>\<open>ratings[s.id] = 0\<close> for each shoe in turn, on an object made
  by \<^verbatim>\<open>Object.create(null)\<close> (no inherited keys).
\<close>

definition createInitialRatings :: "shoe list \<Rightarrow> (string \<times> int) list" where
  "createInitialRatings ss = fold (\<lambda>s ratings. js_set (shoe_id s) 0 ratings) ss []"

text \<open>\<^verbatim>\<open>obj[key] ?? 0\<close> on an object whose values are numbers.\<close>

definition get0 :: "(string \<times> int) list \<Rightarrow> string \<Rightarrow> int" where
  "get0 obj k = (case map_of obj k of None \<Rightarrow> 0 | Some v \<Rightarrow> v)"

section \<open>Application state\<close>

datatype screen_name = Start | Quiz | Loading | Results

record app_state =
  screen :: screen_name
  currentQuestionId :: int
  ratings :: "(string \<times> int) list"

text \<open>
  The loop body of \<^verbatim>\<open>applyRatingIncrease\<close>:
  \<^verbatim>\<open>state.ratings[shoeId] = (state.ratings[shoeId] ?? 0) + Number(inc || 0)\<close>.
  For a number \<^verbatim>\<open>inc\<close>, \<^verbatim>\<open>inc || 0\<close> is \<^verbatim>\<open>0\<close> when \<^verbatim>\<open>inc\<close> is \<^verbatim>\<open>0\<close> and \<^verbatim>\<open>inc\<close> otherwise.
\<close>

definition increase :: "string \<times> int \<Rightarrow> app_state \<Rightarrow> app_state" where
  "increase e s =
     (case e of (shoeId, inc) \<Rightarrow>
        s\<lparr>ratings :=
            js_set shoeId
              (js_add (get0 (ratings s) shoeId) (if inc = 0 then 0 else inc))
              (ratings s)\<rparr>)"

section \<open>Ranking\<close>

text \<open>
  \<^verbatim>\<open>rankedShoes\<close> copies every shoe into a new object with one more key, \<^verbatim>\<open>rating\<close>, and
  sorts the copies with a comparator that reads the map \<^verbatim>\<open>orderIndex\<close> (shoe id to
  position in \<^verbatim>\<open>DATA.shoes\<close>, built with \<^verbatim>\<open>new Map(pairs)\<close>, so a later pair with the
  same id replaces the earlier position).
\<close>

record rated_shoe = shoe +
  rating :: int

definition orderIndex :: "shoe list \<Rightarrow> (string \<times> nat) list" where
  "orderIndex ss =
     fold (\<lambda>(k, i) m. AList.update k i m) (zip (map shoe_id ss) [0..<length ss]) []"

definition rate :: "(string \<times> int) list \<Rightarrow> shoe \<Rightarrow> rated_shoe" where
  "rate rs s =
     \<lparr>shoe_id = shoe_id s, shoe_name = shoe_name s,
      rating = get0 rs (shoe_id s)\<rparr>"

text \<open>\<^verbatim>\<open>orderIndex.get(id) ?? 0\<close>.\<close>

definition orderOf :: "(string \<times> nat) list \<Rightarrow> string \<Rightarrow> nat" where
  "orderOf oi k = (case map_of oi k of None \<Rightarrow> 0 | Some i \<Rightarrow> i)"

definition compareShoes :: "(string \<times> nat) list \<Rightarrow> rated_shoe \<Rightarrow> rated_shoe \<Rightarrow> int" where
  "compareShoes oi a b =
     (if rating b \<noteq> rating a then js_sub (rating b) (rating a)
      else js_sub (int (orderOf oi (shoe_id a))) (int (orderOf oi (shoe_id b))))"

text \<open>
  \<^verbatim>\<open>Array.prototype.sort(compare)\<close> is a stable sort: \<open>a\<close> is placed before \<open>b\<close> when
  \<open>compare a b < 0\<close>, after it when \<open>compare a b > 0\<close>, and elements that compare equal
  keep their order. For a comparator that is consistent (as \<open>compareShoes\<close> is) every
  engine returns the same array, the one a stable insertion sort builds.
\<close>

fun insert_by :: "('a \<Rightarrow> 'a \<Rightarrow> int) \<Rightarrow> 'a \<Rightarrow> 'a list \<Rightarrow> 'a list" where
  "insert_by cmp x [] = [x]"
| "insert_by cmp x (y # ys) = (if cmp x y \<le> 0 then x # y # ys else y # insert_by cmp x ys)"

fun js_sort :: "('a \<Rightarrow> 'a \<Rightarrow> int) \<Rightarrow> 'a list \<Rightarrow> 'a list" where
  "js_sort cmp [] = []"
| "js_sort cmp (x # xs) = insert_by cmp x (js_sort cmp xs)"

text \<open>\<^verbatim>\<open>rankedShoes\<close>, reading the globals \<^verbatim>\<open>DATA\<close> and \<^verbatim>\<open>state\<close> (both loaded).\<close>

definition rankedShoes :: "dataset \<Rightarrow> app_state \<Rightarrow> rated_shoe list" where
  "rankedShoes d s =
     js_sort (compareShoes (orderIndex (shoes d))) (map (rate (ratings s)) (shoes d))"

text \<open>
  The first lines of \<^verbatim>\<open>renderResultsScreen\<close>: \<^verbatim>\<open>ranked[0] ?? null\<close> and
  \<^verbatim>\<open>ranked.slice(1, 3)\<close>. \<open>slice b e\<close> is \<^verbatim>\<open>Array.prototype.slice\<close> for \<open>0 \<le> b \<le> e\<close>: the
  elements at positions \<open>b\<close> up to \<open>e - 1\<close> that exist.
\<close>

definition slice :: "nat \<Rightarrow> nat \<Rightarrow> 'a list \<Rightarrow> 'a list" where
  "slice b e xs = take (e - b) (drop b xs)"

definition recommended :: "rated_shoe list \<Rightarrow> rated_shoe option" where
  "recommended ranked = (case ranked of [] \<Rightarrow> None | r # _ \<Rightarrow> Some r)"

definition similar :: "rated_shoe list \<Rightarrow> rated_shoe list" where
  "similar ranked = slice 1 3 ranked"

section \<open>The page: globals, DOM, listeners and timers\<close>

text \<open>
  What the script writes to the document: which screens lack the class \<^verbatim>\<open>is-hidden\<close>,
  the classes \<^verbatim>\<open>is-results\<close> (body), \<^verbatim>\<open>is-out\<close> (stage) and \<^verbatim>\<open>is-fading\<close> (quiz content),
  the question text, the answer buttons with their \<^verbatim>\<open>data-qid\<close> and \<^verbatim>\<open>data-aindex\<close>
  (kept as the numbers that \<^verbatim>\<open>String\<close> wrote and \<^verbatim>\<open>Number\<close> reads back), the names put
  into the summary sentence, and the shoes whose tiles fill the two result slots.
\<close>

record answer_btn =
  btn_text :: string
  data_qid :: int
  data_aindex :: nat

record dom =
  shown :: "screen_name set"
  body_is_results :: bool
  stage_is_out :: bool
  quiz_is_fading :: bool
  questionText :: string
  answersEl :: "answer_btn list"
  summaryNames :: "string list"
  recommendedSlot :: "rated_shoe list"
  similarGrid :: "rated_shoe list"

text \<open>
  The closures of the script. \<open>updateFn\<close> are the functions handed to \<^verbatim>\<open>transitionTo\<close> and
  \<^verbatim>\<open>fadeQuizContentAndUpdate\<close>; \<open>listener\<close> are the \<^verbatim>\<open>transitionend\<close> listeners, which
  capture such a function; the only timer callback is the one that shows the results.
\<close>

datatype updateFn = StartQuizFn | RestartQuizFn | RenderNextFn int | GoToStartFn

datatype listener = onOutEnd updateFn | onInEnd | onFadeOutEnd updateFn | onFadeInEnd

datatype timer = ShowResultsTimer

datatype alert = ShopAlert string | LoadFailedAlert

datatype js_error = TypeError

text \<open>
  The globals of the script and the browser state it touches. \<^verbatim>\<open>DATA\<close>,
  \<^verbatim>\<open>questionsById\<close> and \<^verbatim>\<open>state\<close> are \<^verbatim>\<open>null\<close> until \<^verbatim>\<open>init\<close> has loaded the data file;
  reading a property of \<^verbatim>\<open>null\<close> throws a \<^verbatim>\<open>TypeError\<close>, which is the \<open>Inl\<close> result of
  the functions below (the model does not follow the page after an uncaught error).
\<close>

record world =
  DATA :: "dataset option"
  questionsById :: "(int \<times> question) list option"
  state :: "app_state option"
  isTransitioning :: bool
  stageListeners :: "listener list"
  quizContentListeners :: "listener list"
  timers :: "timer list"
  alerts :: "alert list"
  page :: dom

definition initialState :: "world \<Rightarrow> js_error + app_state" where
  "initialState w =
     (case DATA w of
        None \<Rightarrow> Inl TypeError
      | Some d \<Rightarrow>
          Inr \<lparr>screen = Start, currentQuestionId = 0,
               ratings = createInitialRatings (shoes d)\<rparr>)"

text \<open>\<^verbatim>\<open>questionsById.get(id) || null\<close>: a question object is never falsy.\<close>

definition getQuestion :: "world \<Rightarrow> int \<Rightarrow> js_error + question option" where
  "getQuestion w i =
     (case questionsById w of None \<Rightarrow> Inl TypeError | Some m \<Rightarrow> Inr (map_of m i))"

definition applyRatingIncrease :: "(string \<times> int) list option \<Rightarrow> world \<Rightarrow> js_error + world" where
  "applyRatingIncrease ri w =
     (case ri of
        None \<Rightarrow> Inr w
      | Some entries \<Rightarrow>
          (case state w of
             None \<Rightarrow> if entries = [] then Inr w else Inl TypeError
           | Some s \<Rightarrow> Inr (w\<lparr>state := Some (fold increase entries s)\<rparr>)))"

definition showOnly :: "screen_name \<Rightarrow> world \<Rightarrow> js_error + world" where
  "showOnly screenName w =
     (case state w of
        None \<Rightarrow> Inl TypeError
      | Some s \<Rightarrow>
          Inr (w\<lparr>page := (page w)\<lparr>shown := {screenName},
                                   body_is_results := (screenName = Results)\<rparr>,
                  state := Some (s\<lparr>screen := screenName\<rparr>)\<rparr>))"

definition transitionTo :: "updateFn \<Rightarrow> world \<Rightarrow> world" where
  "transitionTo f w =
     (if isTransitioning w then w
      else w\<lparr>isTransitioning := True,
              page := (page w)\<lparr>stage_is_out := True\<rparr>,
              stageListeners := stageListeners w @ [onOutEnd f]\<rparr>)"

text \<open>The element \<^verbatim>\<open>#quiz-content\<close> exists, so \<^verbatim>\<open>!quizContentEl\<close> is false.\<close>

definition fadeQuizContentAndUpdate :: "updateFn \<Rightarrow> world \<Rightarrow> js_error + world" where
  "fadeQuizContentAndUpdate f w =
     (case state w of
        None \<Rightarrow> Inl TypeError
      | Some s \<Rightarrow>
          if screen s \<noteq> Quiz then Inr (transitionTo f w)
          else if isTransitioning w then Inr w
          else Inr (w\<lparr>isTransitioning := True,
                       page := (page w)\<lparr>quiz_is_fading := True\<rparr>,
                       quizContentListeners := quizContentListeners w @ [onFadeOutEnd f]\<rparr>))"

definition renderQuestionScreen :: "int \<Rightarrow> world \<Rightarrow> js_error + world" where
  "renderQuestionScreen questionId w =
     (case getQuestion w questionId of
        Inl e \<Rightarrow> Inl e
      | Inr None \<Rightarrow>
          Inr (w\<lparr>page := (page w)\<lparr>questionText := ''Question not found.'', answersEl := []\<rparr>\<rparr>)
      | Inr (Some q) \<Rightarrow>
          (case state w of
             None \<Rightarrow> Inl TypeError
           | Some s \<Rightarrow>
               Inr (w\<lparr>state := Some (s\<lparr>currentQuestionId := questionId\<rparr>),
                       page := (page w)\<lparr>questionText := q_copy q,
                                        answersEl :=
                                          map (\<lambda>(idx, ans).
                                                 \<lparr>btn_text = a_copy ans, data_qid = q_id q,
                                                  data_aindex = idx\<rparr>)
                                              (enumerate 0 (answers q))\<rparr>\<rparr>)))"

text \<open>
  \<^verbatim>\<open>renderResultsScreen\<close>. With an empty catalogue \<^verbatim>\<open>rankedShoes\<close> never reads \<^verbatim>\<open>state\<close>,
  so a \<^verbatim>\<open>null\<close> state throws only when there is a shoe to rate.
\<close>

definition renderRanked :: "rated_shoe list \<Rightarrow> dom \<Rightarrow> dom" where
  "renderRanked ranked p =
     p\<lparr>summaryNames :=
          (case recommended ranked of
             None \<Rightarrow> []
           | Some r \<Rightarrow>
               if length (similar ranked) > 0
               then [shoe_name r, shoe_name (similar ranked ! 0)]
               else [shoe_name r]),
        recommendedSlot := (case recommended ranked of None \<Rightarrow> [] | Some r \<Rightarrow> [r]),
        similarGrid := similar ranked\<rparr>"

definition renderResultsScreen :: "world \<Rightarrow> js_error + world" where
  "renderResultsScreen w =
     (case DATA w of
        None \<Rightarrow> Inl TypeError
      | Some d \<Rightarrow>
          (case state w of
             None \<Rightarrow>
               if shoes d = [] then Inr (w\<lparr>page := renderRanked [] (page w)\<rparr>)
               else Inl TypeError
           | Some s \<Rightarrow> Inr (w\<lparr>page := renderRanked (rankedShoes d s) (page w)\<rparr>)))"

section \<open>Actions\<close>

text \<open>The bodies of the closures handed to \<^verbatim>\<open>transitionTo\<close> and \<^verbatim>\<open>fadeQuizContentAndUpdate\<close>.\<close>

fun run_updateFn :: "updateFn \<Rightarrow> world \<Rightarrow> js_error + world" where
  "run_updateFn StartQuizFn w =
     (case initialState w of
        Inl e \<Rightarrow> Inl e
      | Inr s0 \<Rightarrow>
          (case showOnly Quiz (w\<lparr>state := Some s0\<rparr>) of
             Inl e \<Rightarrow> Inl e
           | Inr w1 \<Rightarrow> renderQuestionScreen 0 w1))"
| "run_updateFn RestartQuizFn w =
     (case initialState w of
        Inl e \<Rightarrow> Inl e
      | Inr s0 \<Rightarrow>
          (case showOnly Quiz (w\<lparr>state := Some s0\<rparr>) of
             Inl e \<Rightarrow> Inl e
           | Inr w1 \<Rightarrow> renderQuestionScreen 0 w1))"
| "run_updateFn (RenderNextFn next) w = renderQuestionScreen next w"
| "run_updateFn GoToStartFn w =
     (if DATA w \<noteq> None
      then (case initialState w of
              Inl e \<Rightarrow> Inl e
            | Inr s0 \<Rightarrow> showOnly Start (w\<lparr>state := Some s0\<rparr>))
      else showOnly Start w)"

definition startQuiz :: "world \<Rightarrow> world" where
  "startQuiz w = transitionTo StartQuizFn w"

definition restartQuiz :: "world \<Rightarrow> world" where
  "restartQuiz w = transitionTo RestartQuizFn w"

definition goToStartScreen :: "world \<Rightarrow> world" where
  "goToStartScreen w = (if isTransitioning w then w else transitionTo GoToStartFn w)"

text \<open>The callback of \<^verbatim>\<open>window.setTimeout(..., 900)\<close> in \<^verbatim>\<open>handleAnswerClick\<close>.\<close>

definition showResultsTimeout :: "world \<Rightarrow> js_error + world" where
  "showResultsTimeout w =
     (case showOnly Results w of
        Inl e \<Rightarrow> Inl e
      | Inr w1 \<Rightarrow>
          (case renderResultsScreen w1 of
             Inl e \<Rightarrow> Inl e
           | Inr w2 \<Rightarrow> Inr (w2\<lparr>isTransitioning := False\<rparr>)))"

text \<open>
  \<^verbatim>\<open>handleAnswerClick(qidStr, aIndexStr)\<close>, after \<^verbatim>\<open>Number\<close> has read the two strings that
  \<^verbatim>\<open>renderQuestionScreen\<close> wrote with \<^verbatim>\<open>String\<close>. \<^verbatim>\<open>q.answers[aIndex]\<close> is \<^verbatim>\<open>undefined\<close>
  outside the array. \<^verbatim>\<open>Number(next)\<close> of a question number is that number.
\<close>

definition handleAnswerClick :: "int \<Rightarrow> int \<Rightarrow> world \<Rightarrow> js_error + world" where
  "handleAnswerClick qid aIndex w =
     (case getQuestion w qid of
        Inl e \<Rightarrow> Inl e
      | Inr None \<Rightarrow> Inr w
      | Inr (Some q) \<Rightarrow>
          if \<not> (0 \<le> aIndex \<and> nat aIndex < length (answers q)) then Inr w
          else
            let ans = answers q ! nat aIndex in
            (case applyRatingIncrease (ratingIncrease ans) w of
               Inl e \<Rightarrow> Inl e
             | Inr w1 \<Rightarrow>
                 (case nextQuestion ans of
                    QuestionNo next \<Rightarrow> fadeQuizContentAndUpdate (RenderNextFn next) w1
                  | _ \<Rightarrow>
                      if isTransitioning w1 then Inr w1
                      else
                        (case showOnly Loading (w1\<lparr>isTransitioning := True\<rparr>) of
                           Inl e \<Rightarrow> Inl e
                         | Inr w2 \<Rightarrow> Inr (w2\<lparr>timers := timers w2 @ [ShowResultsTimer]\<rparr>)))))"

section \<open>Events\<close>

text \<open>
  A \<^verbatim>\<open>transitionend\<close> listener, called with the event's \<^verbatim>\<open>propertyName\<close>. Each one
  ignores every property but \<^verbatim>\<open>opacity\<close>, removes itself, and either runs its update
  function and registers the fade-in listener, or clears \<^verbatim>\<open>isTransitioning\<close>.
\<close>

fun run_listener :: "listener \<Rightarrow> string \<Rightarrow> world \<Rightarrow> js_error + world" where
  "run_listener (onOutEnd f) propertyName w =
     (if propertyName \<noteq> ''opacity'' then Inr w
      else
        (case run_updateFn f (w\<lparr>stageListeners := remove1 (onOutEnd f) (stageListeners w)\<rparr>) of
           Inl e \<Rightarrow> Inl e
         | Inr w1 \<Rightarrow>
             Inr (w1\<lparr>page := (page w1)\<lparr>stage_is_out := False\<rparr>,
                     stageListeners := stageListeners w1 @ [onInEnd]\<rparr>)))"
| "run_listener onInEnd propertyName w =
     (if propertyName \<noteq> ''opacity'' then Inr w
      else Inr (w\<lparr>stageListeners := remove1 onInEnd (stageListeners w),
                   isTransitioning := False\<rparr>))"
| "run_listener (onFadeOutEnd f) propertyName w =
     (if propertyName \<noteq> ''opacity'' then Inr w
      else
        (case run_updateFn f
                (w\<lparr>quizContentListeners :=
                     remove1 (onFadeOutEnd f) (quizContentListeners w)\<rparr>) of
           Inl e \<Rightarrow> Inl e
         | Inr w1 \<Rightarrow>
             Inr (w1\<lparr>page := (page w1)\<lparr>quiz_is_fading := False\<rparr>,
                     quizContentListeners := quizContentListeners w1 @ [onFadeInEnd]\<rparr>)))"
| "run_listener onFadeInEnd propertyName w =
     (if propertyName \<noteq> ''opacity'' then Inr w
      else Inr (w\<lparr>quizContentListeners := remove1 onFadeInEnd (quizContentListeners w),
                   isTransitioning := False\<rparr>))"

datatype element = StageEl | QuizContentEl

definition listeners_of :: "element \<Rightarrow> world \<Rightarrow> listener list" where
  "listeners_of el w = (case el of StageEl \<Rightarrow> stageListeners w | QuizContentEl \<Rightarrow> quizContentListeners w)"

text \<open>
  The browser calls the listeners that were registered on the element when the event
  arrived, in order, skipping one that has been removed in the meantime.
\<close>

fun run_listeners :: "element \<Rightarrow> listener list \<Rightarrow> string \<Rightarrow> world \<Rightarrow> js_error + world" where
  "run_listeners el [] propertyName w = Inr w"
| "run_listeners el (l # ls) propertyName w =
     (if l \<in> set (listeners_of el w)
      then (case run_listener l propertyName w of
              Inl e \<Rightarrow> Inl e
            | Inr w1 \<Rightarrow> run_listeners el ls propertyName w1)
      else run_listeners el ls propertyName w)"

text \<open>
  \<^verbatim>\<open>transitionend\<close> bubbles: fired on \<^verbatim>\<open>#quiz-content\<close>, which lies inside \<^verbatim>\<open>#stage\<close> (the
  click listener of the stage receives the clicks on the answer buttons), it reaches the
  listeners of the stage after those of the quiz content.
\<close>

definition transitionend :: "element \<Rightarrow> string \<Rightarrow> world \<Rightarrow> js_error + world" where
  "transitionend el propertyName w =
     (case el of
        StageEl \<Rightarrow> run_listeners StageEl (stageListeners w) propertyName w
      | QuizContentEl \<Rightarrow>
          (case run_listeners QuizContentEl (quizContentListeners w) propertyName w of
             Inl e \<Rightarrow> Inl e
           | Inr w1 \<Rightarrow> run_listeners StageEl (stageListeners w1) propertyName w1))"

text \<open>
  The delegated click listener of \<^verbatim>\<open>#stage\<close>. The target is what
  \<^verbatim>\<open>e.target.closest("button")\<close> finds: no button, an answer button with its two data
  attributes, a shop button with its shoe id, a colour swatch (whose class changes are
  not part of the model), or another button.
\<close>

datatype click_target = NoButton | AnswerBtn int int | ShopBtn string | SwatchBtn | OtherBtn

definition stageClick :: "click_target \<Rightarrow> world \<Rightarrow> js_error + world" where
  "stageClick t w =
     (if isTransitioning w then Inr w
      else
        (case t of
           NoButton \<Rightarrow> Inr w
         | AnswerBtn qid aindex \<Rightarrow> handleAnswerClick qid aindex w
         | ShopBtn shoeId \<Rightarrow> Inr (w\<lparr>alerts := alerts w @ [ShopAlert shoeId]\<rparr>)
         | SwatchBtn \<Rightarrow> Inr w
         | OtherBtn \<Rightarrow> Inr w))"

text \<open>
  The events of the page: clicks on the start button, the restart button, the menu
  button or the logo (both go home), a click inside the stage, a \<^verbatim>\<open>transitionend\<close> on
  one of the two animated elements, and the expiry of the oldest pending timer. (A
  click on one of the four named controls that also reaches the stage listener is an
  \<open>OtherBtn\<close> there and changes nothing.)
\<close>

datatype event =
    StartClick | RestartClick | HomeClick
  | StageClick click_target
  | TransitionEnd element string
  | Timeout

fun dispatch :: "event \<Rightarrow> world \<Rightarrow> js_error + world" where
  "dispatch StartClick w = Inr (startQuiz w)"
| "dispatch RestartClick w = Inr (restartQuiz w)"
| "dispatch HomeClick w = Inr (goToStartScreen w)"
| "dispatch (StageClick t) w = stageClick t w"
| "dispatch (TransitionEnd el propertyName) w = transitionend el propertyName w"
| "dispatch Timeout w =
     (case timers w of
        [] \<Rightarrow> Inr w
      | ShowResultsTimer # ts \<Rightarrow> showResultsTimeout (w\<lparr>timers := ts\<rparr>))"

text \<open>A run of events, stopping at the first uncaught error.\<close>

fun run_events :: "event list \<Rightarrow> world \<Rightarrow> js_error + world" where
  "run_events [] w = Inr w"
| "run_events (e # es) w = (case dispatch e w of Inl err \<Rightarrow> Inl err | Inr w1 \<Rightarrow> run_events es w1)"

section \<open>Boot\<close>

text \<open>
  \<^verbatim>\<open>init\<close>, for the three ways the fetch can end: the promise rejects, the response is
  not ok, or the document is parsed. The page before \<^verbatim>\<open>init\<close> has the document of
  \<^verbatim>\<open>index.html\<close>, a parameter here.
\<close>

datatype fetch_result = FetchRejected | ResponseNotOk | Loaded dataset

definition boot :: "dom \<Rightarrow> world" where
  "boot p =
     \<lparr>DATA = None, questionsById = None, state = None, isTransitioning = False,
      stageListeners = [], quizContentListeners = [], timers = [], alerts = [], page = p\<rparr>"

definition init :: "fetch_result \<Rightarrow> world \<Rightarrow> js_error + world" where
  "init r w =
     (case r of
        FetchRejected \<Rightarrow> Inr (w\<lparr>alerts := alerts w @ [LoadFailedAlert]\<rparr>)
      | ResponseNotOk \<Rightarrow> Inr (w\<lparr>alerts := alerts w @ [LoadFailedAlert]\<rparr>)
      | Loaded d \<Rightarrow>
          (let w1 = w\<lparr>DATA := Some d, questionsById := Some (buildQuestionsMap (questions d))\<rparr>
           in case initialState w1 of
                Inl e \<Rightarrow> Inr (w1\<lparr>alerts := alerts w1 @ [LoadFailedAlert]\<rparr>)
              | Inr s0 \<Rightarrow>
                  (case showOnly Start (w1\<lparr>state := Some s0\<rparr>) of
                     Inl e \<Rightarrow> Inr (w1\<lparr>state := Some s0, alerts := alerts w1 @ [LoadFailedAlert]\<rparr>)
                   | Inr w2 \<Rightarrow> Inr w2)))"

section \<open>The objects that rankedShoes touches\<close>

text \<open>
  \<^verbatim>\<open>DATA.shoes\<close> is an array of references to shoe objects, and \<^verbatim>\<open>Array.prototype.sort\<close>
  sorts the array it is called on in place. To see what \<^verbatim>\<open>rankedShoes\<close> writes, this
  section runs it on a store of objects: a cell per object, an address is the position
  of the cell, a new object is put at the end. \<^verbatim>\<open>map\<close> makes a new array, and its callback
  makes a new object for each element; \<^verbatim>\<open>sort\<close> then overwrites the cell of that new
  array. (The pairs and the \<^verbatim>\<open>Map\<close> of \<^verbatim>\<open>orderIndex\<close> are unreachable after the call and
  get no cell.) The result is \<open>None\<close> only when an address does not hold the kind of
  object that the loaded page has there.
\<close>

type_synonym addr = nat

datatype cell =
    ShoeObj shoe
  | RatedObj rated_shoe
  | ArrayObj "addr list"
  | RatingsObj "(string \<times> int) list"

type_synonym store = "cell list"

definition alloc :: "cell \<Rightarrow> store \<Rightarrow> addr \<times> store" where
  "alloc c st = (length st, st @ [c])"

definition shoe_at :: "store \<Rightarrow> addr \<Rightarrow> shoe option" where
  "shoe_at st a =
     (if a < length st then (case st ! a of ShoeObj s \<Rightarrow> Some s | _ \<Rightarrow> None) else None)"

definition rated_at :: "store \<Rightarrow> addr \<Rightarrow> rated_shoe option" where
  "rated_at st a =
     (if a < length st then (case st ! a of RatedObj r \<Rightarrow> Some r | _ \<Rightarrow> None) else None)"

definition array_at :: "store \<Rightarrow> addr \<Rightarrow> addr list option" where
  "array_at st a =
     (if a < length st then (case st ! a of ArrayObj xs \<Rightarrow> Some xs | _ \<Rightarrow> None) else None)"

definition ratings_at :: "store \<Rightarrow> addr \<Rightarrow> (string \<times> int) list option" where
  "ratings_at st a =
     (if a < length st then (case st ! a of RatingsObj rs \<Rightarrow> Some rs | _ \<Rightarrow> None) else None)"

text \<open>\<^verbatim>\<open>.map((s) => ({ ...s, rating: state.ratings[s.id] ?? 0 }))\<close>, element by element.\<close>

fun map_rate :: "(string \<times> int) list \<Rightarrow> addr list \<Rightarrow> store \<Rightarrow> (addr list \<times> store) option" where
  "map_rate rs [] st = Some ([], st)"
| "map_rate rs (a # as) st =
     (case shoe_at st a of
        None \<Rightarrow> None
      | Some s \<Rightarrow>
          (case alloc (RatedObj (rate rs s)) st of
             (b, st1) \<Rightarrow>
               (case map_rate rs as st1 of
                  None \<Rightarrow> None
                | Some (bs, st2) \<Rightarrow> Some (b # bs, st2))))"

text \<open>The comparator of \<^verbatim>\<open>rankedShoes\<close>, reading its two arguments through their addresses.\<close>

definition compareAt :: "store \<Rightarrow> (string \<times> nat) list \<Rightarrow> addr \<Rightarrow> addr \<Rightarrow> int" where
  "compareAt st oi a b =
     (case (rated_at st a, rated_at st b) of
        (Some x, Some y) \<Rightarrow> compareShoes oi x y
      | _ \<Rightarrow> 0)"

definition rankedShoes_store :: "addr \<Rightarrow> addr \<Rightarrow> store \<Rightarrow> (addr \<times> store) option" where
  "rankedShoes_store shoesArr ratingsObj st =
     (case array_at st shoesArr of
        None \<Rightarrow> None
      | Some as \<Rightarrow>
          (case ratings_at st ratingsObj of
             None \<Rightarrow> None
           | Some rs \<Rightarrow>
               (case those (map (shoe_at st) as) of
                  None \<Rightarrow> None
                | Some ss \<Rightarrow>
                    (case map_rate rs as st of
                       None \<Rightarrow> None
                     | Some (bs, st1) \<Rightarrow>
                         (case alloc (ArrayObj bs) st1 of
                            (r, st2) \<Rightarrow>
                              Some (r, st2[r := ArrayObj (js_sort (compareAt st2 (orderIndex ss)) bs)]))))))"

section \<open>One transition at a time\<close>

text \<open>
  What is in flight on a page: nothing while \<^verbatim>\<open>isTransitioning\<close> is false; otherwise
  exactly one of a stage fade-out, a stage fade-in, a quiz-content fade-out, a
  quiz-content fade-in, or the timer of the loading screen.
\<close>

definition one_transition :: "world \<Rightarrow> bool" where
  "one_transition w \<longleftrightarrow>
     (if isTransitioning w
      then ((\<exists>f. stageListeners w = [onOutEnd f]) \<and> quizContentListeners w = [] \<and> timers w = [])
         \<or> (stageListeners w = [onInEnd] \<and> quizContentListeners w = [] \<and> timers w = [])
         \<or> (stageListeners w = [] \<and> (\<exists>f. quizContentListeners w = [onFadeOutEnd f]) \<and> timers w = [])
         \<or> (stageListeners w = [] \<and> quizContentListeners w = [onFadeInEnd] \<and> timers w = [])
         \<or> (stageListeners w = [] \<and> quizContentListeners w = [] \<and> timers w = [ShowResultsTimer])
      else stageListeners w = [] \<and> quizContentListeners w = [] \<and> timers w = [])"

text \<open>The page after a successful \<^verbatim>\<open>init\<close>: the three globals are set.\<close>

definition loaded :: "world \<Rightarrow> bool" where
  "loaded w \<longleftrightarrow> DATA w \<noteq> None \<and> questionsById w \<noteq> None \<and> state w \<noteq> None"

section \<open>Example data\<close>

text \<open>
  A catalogue of three shoes and a quiz of two questions. Question 0 leads to question 1
  from both answers; the answers of question 1 end the quiz with each of the three
  spellings of a missing \<^verbatim>\<open>nextQuestion\<close>.
\<close>

definition shoe_a :: shoe where "shoe_a = \<lparr>shoe_id = ''a'', shoe_name = ''Alpha''\<rparr>"
definition shoe_b :: shoe where "shoe_b = \<lparr>shoe_id = ''b'', shoe_name = ''Beta''\<rparr>"
definition shoe_c :: shoe where "shoe_c = \<lparr>shoe_id = ''c'', shoe_name = ''Gamma''\<rparr>"

definition ex_questions :: "question list" where
  "ex_questions =
     [\<lparr>q_id = 0, q_copy = ''Where do you run?'',
       answers =
         [\<lparr>a_copy = ''Road'', ratingIncrease = Some [(''a'', 3), (''b'', 1)],
           nextQuestion = QuestionNo 1\<rparr>,
          \<lparr>a_copy = ''Trail'', ratingIncrease = Some [(''c'', 2), (''a'', - 1)],
           nextQuestion = QuestionNo 1\<rparr>]\<rparr>,
      \<lparr>q_id = 1, q_copy = ''How far?'',
       answers =
         [\<lparr>a_copy = ''Short'', ratingIncrease = Some [(''a'', 3), (''b'', 1)],
           nextQuestion = Null\<rparr>,
          \<lparr>a_copy = ''Long'', ratingIncrease = Some [(''d'', 4)],
           nextQuestion = EmptyString\<rparr>,
          \<lparr>a_copy = ''Any'', ratingIncrease = None, nextQuestion = Undefined\<rparr>]\<rparr>]"

definition ex_data :: dataset where
  "ex_data = \<lparr>shoes = [shoe_a, shoe_b, shoe_c], questions = ex_questions\<rparr>"

definition ex_page :: dom where
  "ex_page =
     \<lparr>shown = {Start}, body_is_results = False, stage_is_out = False,
      quiz_is_fading = False, questionText = [], answersEl = [], summaryNames = [],
      recommendedSlot = [], similarGrid = []\<rparr>"

text \<open>The page showing question 1 in the middle of a quiz, with nothing in flight.\<close>

definition ex_state :: app_state where
  "ex_state =
     \<lparr>screen = Quiz, currentQuestionId = 1, ratings = [(''a'', 5), (''b'', 5), (''c'', 9)]\<rparr>"

definition ex_world :: world where
  "ex_world =
     \<lparr>DATA = Some ex_data, questionsById = Some (buildQuestionsMap ex_questions),
      state = Some ex_state, isTransitioning = False, stageListeners = [],
      quizContentListeners = [], timers = [], alerts = [],
      page = ex_page\<lparr>shown := {Quiz}\<rparr>\<rparr>"

text \<open>The page showing question 0 at the start of a quiz.\<close>

definition ex_world0 :: world where
  "ex_world0 =
     ex_world\<lparr>state := Some \<lparr>screen = Quiz, currentQuestionId = 0,
                                ratings = [(''a'', 0), (''b'', 0), (''c'', 0)]\<rparr>\<rparr>"

text \<open>The same page while question 1 fades out, and while it fades back in.\<close>

definition ex_fading_out :: world where
  "ex_fading_out =
     ex_world\<lparr>isTransitioning := True,
               quizContentListeners := [onFadeOutEnd (RenderNextFn 1)]\<rparr>"

definition ex_fading_in :: world where
  "ex_fading_in = ex_world\<lparr>isTransitioning := True, quizContentListeners := [onFadeInEnd]\<rparr>"

text \<open>
  A store holding the three shoes, the array \<^verbatim>\<open>DATA.shoes\<close> at address 3 and a ratings
  object at address 4 in which shoe b has no entry.
\<close>

definition ex_store :: store where
  "ex_store =
     [ShoeObj shoe_a, ShoeObj shoe_b, ShoeObj shoe_c, ArrayObj [0, 1, 2],
      RatingsObj [(''a'', 5), (''c'', 9)]]"

text \<open>A second question with the id 0, to stand after the two questions above.\<close>

definition ex_duplicate :: question where
  "ex_duplicate = \<lparr>q_id = 0, q_copy = ''Where do you race?'', answers = []\<rparr>"

text \<open>
  A catalogue in which two of the three ids are array indices, and the page of question
  0 on which shoe b has the rating \<open>2^53\<close>.
\<close>

definition ex_numbered :: dataset where
  "ex_numbered =
     \<lparr>shoes = [shoe_b, \<lparr>shoe_id = ''10'', shoe_name = ''Ten''\<rparr>,
               \<lparr>shoe_id = ''2'', shoe_name = ''Two''\<rparr>],
      questions = ex_questions\<rparr>"

definition ex_world_numbered :: world where
  "ex_world_numbered = ex_world\<lparr>DATA := Some ex_numbered\<rparr>"


section \<open>Rounding and key order\<close>

lemma round_double_exact: "\<bar>n\<bar> \<le> 2 ^ 53 \<Longrightarrow> round_double n = n"
  by (simp add: round_double_def ulp_def)

lemma js_add_exact: "\<bar>a + b\<bar> \<le> 2 ^ 53 \<Longrightarrow> js_add a b = a + b"
  by (simp add: js_add_def round_double_exact)

lemma bit_length_le: "0 < n \<Longrightarrow> 2 ^ bit_length n \<le> 2 * n"
proof (induction n rule: bit_length.induct)
  case (1 n)
  show ?case
  proof (cases "n div 2 \<le> 0")
    case True
    with "1.prems" have "n = 1" by simp
    then show ?thesis by (simp add: bit_length.simps)
  next
    case False
    then have "2 ^ bit_length (n div 2) \<le> 2 * (n div 2)"
      using "1.IH" "1.prems" by simp
    also have "\<dots> \<le> n" by simp
    finally have "2 ^ bit_length (n div 2) \<le> n" .
    then show ?thesis
      using "1.prems" by (subst bit_length.simps) simp
  qed
qed

lemma ulp_pos: "0 < ulp n"
  by (simp add: ulp_def)

lemma power_two_split: "m \<le> l \<Longrightarrow> (2::int) ^ l = 2 ^ (l - m) * 2 ^ m"
  by (simp add: power_add [symmetric])

lemma ulp_le: "0 < n \<Longrightarrow> ulp n \<le> n"
proof (cases "\<bar>n\<bar> \<le> 2 ^ 53")
  case True
  assume "0 < n"
  with True show ?thesis by (simp add: ulp_def)
next
  case False
  assume pos: "0 < n"
  define c :: int where "c = 2 ^ 53"
  define q :: int where "q = 2 ^ (bit_length n - 53)"
  have u: "ulp n = q" using False pos by (simp add: ulp_def q_def)
  have c: "2 \<le> c" by (simp add: c_def)
  have q: "0 < q" by (simp add: q_def)
  have le: "(2::int) ^ bit_length n \<le> 2 * n" using bit_length_le [OF pos] .
  show ?thesis
  proof (cases "53 \<le> bit_length n")
    case True
    from power_two_split [OF True] have "(2::int) ^ bit_length n = q * c"
      by (simp only: q_def c_def)
    with le have "q * c \<le> 2 * n" by simp
    moreover have "q * 2 \<le> q * c"
      using c q by (intro mult_left_mono) simp_all
    ultimately have "q \<le> n" by linarith
    with u show ?thesis by simp
  next
    case F: False
    then have "q = 1" by (simp add: q_def)
    with u pos show ?thesis by simp
  qed
qed

lemma round_double_between:
  "(n div ulp n) * ulp n \<le> round_double n \<and> round_double n \<le> (n div ulp n) * ulp n + ulp n"
  using ulp_pos [of n] by (simp add: round_double_def Let_def)

lemma round_double_sign: "round_double n \<le> 0 \<longleftrightarrow> n \<le> 0"
proof
  assume r: "round_double n \<le> 0"
  show "n \<le> 0"
  proof (rule ccontr)
    assume "\<not> n \<le> 0"
    then have pos: "0 < n" by simp
    have q: "0 < ulp n" "ulp n \<le> n" using ulp_pos ulp_le [OF pos] by simp_all
    then have "0 < n div ulp n"
      by (simp add: pos_imp_zdiv_pos_iff)
    then have "1 \<le> n div ulp n" by simp
    then have "1 * ulp n \<le> (n div ulp n) * ulp n"
      using q(1) by (intro mult_right_mono) simp_all
    with q(1) round_double_between [of n] r show False by simp
  qed
next
  assume n: "n \<le> 0"
  show "round_double n \<le> 0"
  proof (cases "n = 0")
    case True
    then show ?thesis by (simp add: round_double_exact)
  next
    case False
    with n have neg: "n < 0" by simp
    have q: "0 < ulp n" by (rule ulp_pos)
    have "n div ulp n < 0" using neg q by (rule div_neg_pos_less0)
    then have "n div ulp n + 1 \<le> 0" by simp
    then have "(n div ulp n + 1) * ulp n \<le> 0"
      using q by (simp add: mult_le_0_iff)
    then have "(n div ulp n) * ulp n + ulp n \<le> 0" by (simp add: algebra_simps)
    with round_double_between [of n] show ?thesis by linarith
  qed
qed

lemma js_sub_le: "js_sub a b \<le> 0 \<longleftrightarrow> a \<le> b"
  by (simp add: js_sub_def round_double_sign)

lemma map_of_insert_fresh:
  "k \<notin> fst ` set xs \<Longrightarrow>
   map_of (xs @ (k, v) # ys) k' = (if k' = k then Some v else map_of (xs @ ys) k')"
  by (induction xs) auto

lemma map_of_js_set: "map_of (js_set k v obj) k' = (if k' = k then Some v else map_of obj k')"
proof (cases "map_of obj k")
  case (Some a)
  then show ?thesis by (simp add: js_set_def update_conv')
next
  case None
  then have fresh: "k \<notin> fst ` set obj" by (simp add: map_of_eq_None_iff)
  show ?thesis
  proof (cases "index_of_key k")
    case N: None
    from map_of_insert_fresh [OF fresh, of v "[]" k']
    show ?thesis using None N by (simp add: js_set_def)
  next
    case (Some i)
    have "k \<notin> fst ` set (takeWhile (comes_before i) obj)"
      using fresh by (auto dest: set_takeWhileD)
    from map_of_insert_fresh [OF this, of v "dropWhile (comes_before i) obj" k']
    show ?thesis using None Some by (simp add: js_set_def)
  qed
qed

lemma keys_js_set: "fst ` set (js_set k v obj) = insert k (fst ` set obj)"
proof -
  have "dom (map_of (js_set k v obj)) = insert k (dom (map_of obj))"
    by (auto simp: map_of_js_set dom_def split: if_splits)
  then show ?thesis by (simp add: dom_map_of_conv_image_fst)
qed

lemma distinct_js_set:
  assumes "distinct (map fst obj)"
  shows "distinct (map fst (js_set k v obj))"
proof (cases "map_of obj k")
  case (Some a)
  with assms show ?thesis by (simp add: js_set_def distinct_update)
next
  case None
  then have fresh: "k \<notin> fst ` set obj" by (simp add: map_of_eq_None_iff)
  show ?thesis
  proof (cases "index_of_key k")
    case N: None
    with None fresh assms show ?thesis by (simp add: js_set_def)
  next
    case (Some i)
    let ?P = "comes_before i :: string \<times> 'a \<Rightarrow> bool"
    have "distinct (map fst (takeWhile ?P obj @ dropWhile ?P obj))"
      using assms by simp
    then have d: "distinct (map fst (takeWhile ?P obj))" "distinct (map fst (dropWhile ?P obj))"
      "fst ` set (takeWhile ?P obj) \<inter> fst ` set (dropWhile ?P obj) = {}"
      by (simp_all only: map_append distinct_append set_map)
    have "k \<notin> fst ` set (takeWhile ?P obj)" "k \<notin> fst ` set (dropWhile ?P obj)"
      using fresh by (auto dest: set_takeWhileD set_dropWhileD)
    with d None Some show ?thesis by (auto simp: js_set_def)
  qed
qed

lemma js_set_fresh_name:
  "k \<notin> fst ` set obj \<Longrightarrow> index_of_key k = None \<Longrightarrow> js_set k v obj = obj @ [(k, v)]"
  by (simp add: js_set_def map_of_eq_None_iff)

lemma ex_keys:
  "index_of_key ''a'' = None" "index_of_key ''b'' = None" "index_of_key ''c'' = None"
  "index_of_key ''d'' = None" "index_of_key ''A'' = None" "index_of_key ''B'' = None"
  by code_simp+

section \<open>The question index\<close>

lemma find_append_case:
  "List.find P (xs @ ys) = (case List.find P xs of None \<Rightarrow> List.find P ys | Some x \<Rightarrow> Some x)"
  by (induction xs) simp_all

lemma map_of_fold_update:
  "map_of (fold (\<lambda>q m. AList.update (q_id q) q m) qs m0) k =
     (case List.find (\<lambda>q. q_id q = k) (rev qs) of
        None \<Rightarrow> map_of m0 k
      | Some q \<Rightarrow> Some q)"
proof (induction qs arbitrary: m0)
  case Nil
  show ?case by simp
next
  case (Cons q qs)
  show ?case
    by (simp add: Cons.IH update_conv' find_append_case split: option.split)
qed

text \<open>
  C9. Looking a question id up in the index built by \<open>buildQuestionsMap\<close> gives the last
  question of the list that bears this id (so a later duplicate replaces an earlier one),
  and nothing when no question bears it; the index has one entry per id.
\<close>

theorem buildQuestionsMap_last_wins:
  "map_of (buildQuestionsMap qs) k = List.find (\<lambda>q. q_id q = k) (rev qs)
   \<and> distinct (map fst (buildQuestionsMap qs))
   \<and> fst ` set (buildQuestionsMap qs) = q_id ` set qs"
proof -
  have lookup: "map_of (buildQuestionsMap qs) k = List.find (\<lambda>q. q_id q = k) (rev qs)"
    by (simp add: buildQuestionsMap_def map_of_fold_update split: option.split)
  have gen: "distinct (map fst m0) \<Longrightarrow>
      distinct (map fst (fold (\<lambda>q m. AList.update (q_id q) q m) qs m0))
      \<and> fst ` set (fold (\<lambda>q m. AList.update (q_id q) q m) qs m0) = fst ` set m0 \<union> q_id ` set qs"
    for m0
  proof (induction qs arbitrary: m0)
    case Nil
    then show ?case by simp
  next
    case (Cons q qs)
    have d: "distinct (map fst (AList.update (q_id q) q m0))"
      using Cons.prems by (simp add: distinct_update)
    have k: "fst ` set (AList.update (q_id q) q m0) = insert (q_id q) (fst ` set m0)"
      using dom_update [of "q_id q" q m0] by (simp add: dom_map_of_conv_image_fst)
    show ?case using Cons.IH [OF d] k by auto
  qed
  from gen [of "[]"] have "distinct (map fst (buildQuestionsMap qs))"
    and "fst ` set (buildQuestionsMap qs) = q_id ` set qs"
    by (simp_all add: buildQuestionsMap_def)
  with lookup show ?thesis by simp
qed

theorem buildQuestionsMap_last_wins_witness:
  "map_of (buildQuestionsMap (ex_questions @ [ex_duplicate])) 0 = Some ex_duplicate
   \<and> map_of (buildQuestionsMap (ex_questions @ [ex_duplicate])) 1 = Some (ex_questions ! 1)
   \<and> map_of (buildQuestionsMap (ex_questions @ [ex_duplicate])) 2 = None"
  using buildQuestionsMap_last_wins [of "ex_questions @ [ex_duplicate]" 0]
    buildQuestionsMap_last_wins [of "ex_questions @ [ex_duplicate]" 1]
    buildQuestionsMap_last_wins [of "ex_questions @ [ex_duplicate]" 2]
  by (simp add: ex_questions_def ex_duplicate_def)

section \<open>Ranking: order and contents\<close>

lemma mset_insert_by: "mset (insert_by cmp x ys) = add_mset x (mset ys)"
  by (induction ys) simp_all

lemma mset_js_sort: "mset (js_sort cmp xs) = mset xs"
  by (induction xs) (simp_all add: mset_insert_by)

lemma set_insert_by: "set (insert_by cmp x ys) = insert x (set ys)"
  by (induction ys) auto

lemma sorted_insert_by:
  assumes total: "\<And>a b. cmp a b \<le> 0 \<or> cmp b a \<le> 0"
    and trans: "\<And>a b c. cmp a b \<le> 0 \<Longrightarrow> cmp b c \<le> 0 \<Longrightarrow> cmp a c \<le> 0"
  shows "sorted_wrt (\<lambda>a b. cmp a b \<le> 0) ys \<Longrightarrow> sorted_wrt (\<lambda>a b. cmp a b \<le> 0) (insert_by cmp x ys)"
proof (induction ys)
  case Nil
  show ?case by simp
next
  case (Cons y ys)
  show ?case
  proof (cases "cmp x y \<le> 0")
    case True
    have "\<forall>z\<in>set ys. cmp x z \<le> 0"
      using Cons.prems True trans by auto
    with True Cons.prems show ?thesis by simp
  next
    case False
    then have yx: "cmp y x \<le> 0" using total [of x y] by simp
    have "sorted_wrt (\<lambda>a b. cmp a b \<le> 0) (insert_by cmp x ys)"
      using Cons.IH Cons.prems by simp
    with False yx Cons.prems show ?thesis by (simp add: set_insert_by)
  qed
qed

lemma sorted_js_sort:
  assumes total: "\<And>a b. cmp a b \<le> 0 \<or> cmp b a \<le> 0"
    and trans: "\<And>a b c. cmp a b \<le> 0 \<Longrightarrow> cmp b c \<le> 0 \<Longrightarrow> cmp a c \<le> 0"
  shows "sorted_wrt (\<lambda>a b. cmp a b \<le> 0) (js_sort cmp xs)"
proof (induction xs)
  case Nil
  show ?case by simp
next
  case (Cons x xs)
  show ?case using sorted_insert_by [of cmp, OF total trans Cons.IH] by simp
qed

lemma compareShoes_le:
  "compareShoes oi a b \<le> 0 \<longleftrightarrow>
     rating b < rating a \<or> (rating a = rating b \<and> orderOf oi (shoe_id a) \<le> orderOf oi (shoe_id b))"
  by (auto simp: compareShoes_def js_sub_le)

lemma compareShoes_total: "compareShoes oi a b \<le> 0 \<or> compareShoes oi b a \<le> 0"
  unfolding compareShoes_le by linarith

lemma compareShoes_trans:
  "compareShoes oi a b \<le> 0 \<Longrightarrow> compareShoes oi b c \<le> 0 \<Longrightarrow> compareShoes oi a c \<le> 0"
  unfolding compareShoes_le by linarith

lemma map_of_fold_pairs:
  "map_of (fold (\<lambda>(k, i) m. AList.update k i m) ps acc) k =
     (case map_of (rev ps) k of None \<Rightarrow> map_of acc k | Some v \<Rightarrow> Some v)"
proof (induction ps arbitrary: acc)
  case Nil
  show ?case by simp
next
  case (Cons p ps)
  obtain k' i' where p: "p = (k', i')" by (cases p)
  show ?case
    by (simp add: p Cons.IH update_conv' map_add_def split: option.split)
qed

lemma orderOf_orderIndex:
  assumes "distinct (map shoe_id ss)" and "p < length ss"
  shows "orderOf (orderIndex ss) (shoe_id (ss ! p)) = p"
proof -
  let ?ps = "zip (map shoe_id ss) [0..<length ss]"
  have d: "distinct (map fst (rev ?ps))"
    using assms(1) by (simp add: rev_map [symmetric])
  have "(shoe_id (ss ! p), p) \<in> set (rev ?ps)"
    using assms(2) by (auto simp: set_zip intro!: exI [of _ p])
  with d have "map_of (rev ?ps) (shoe_id (ss ! p)) = Some p"
    by (simp only: map_of_eq_Some_iff)
  then show ?thesis
    by (simp add: orderOf_def orderIndex_def map_of_fold_pairs)
qed


lemma rankedShoes_positions:
  assumes dist: "distinct (map shoe_id (shoes d))"
    and i: "i < length (rankedShoes d s)" and j: "j < length (rankedShoes d s)"
  shows "(i < j) =
      (rating (rankedShoes d s ! i) > rating (rankedShoes d s ! j)
       \<or> (rating (rankedShoes d s ! i) = rating (rankedShoes d s ! j)
          \<and> orderOf (orderIndex (shoes d)) (shoe_id (rankedShoes d s ! i))
            < orderOf (orderIndex (shoes d)) (shoe_id (rankedShoes d s ! j))))"
proof -
  define precedes where "precedes oi a b \<longleftrightarrow>
      rating a > rating b \<or> (rating a = rating b \<and> orderOf oi (shoe_id a) < orderOf oi (shoe_id b))"
    for oi :: "(string \<times> nat) list" and a b :: rated_shoe
  let ?oi = "orderIndex (shoes d)"
  let ?r = "rankedShoes d s"
  let ?le = "\<lambda>a b. compareShoes ?oi a b \<le> 0"
  have ms: "mset ?r = mset (map (rate (ratings s)) (shoes d))"
    by (simp add: rankedShoes_def mset_js_sort)
  have sorted: "sorted_wrt ?le ?r"
    unfolding rankedShoes_def
    by (rule sorted_js_sort) (rule compareShoes_total, rule compareShoes_trans)
  have ids: "mset (map shoe_id ?r) = mset (map shoe_id (shoes d))"
  proof -
    have "mset (map shoe_id ?r) = image_mset shoe_id (mset ?r)" by simp
    also have "\<dots> = image_mset shoe_id (mset (map (rate (ratings s)) (shoes d)))"
      by (simp only: ms)
    also have "\<dots> = mset (map shoe_id (shoes d))"
      by (simp add: rate_def image_mset.compositionality comp_def)
    finally show ?thesis .
  qed
  have dr: "distinct (map shoe_id ?r)"
    using dist ids by (metis mset_eq_imp_distinct_iff)
  have inj: "orderOf ?oi (shoe_id (?r ! a)) \<noteq> orderOf ?oi (shoe_id (?r ! b))"
    if a: "a < length ?r" and b: "b < length ?r" and ne: "a \<noteq> b" for a b
  proof -
    have idne: "shoe_id (?r ! a) \<noteq> shoe_id (?r ! b)"
      using dr a b ne by (simp add: distinct_conv_nth)
    have mem: "shoe_id (?r ! c) \<in> set (map shoe_id (shoes d))" if "c < length ?r" for c
    proof -
      have "shoe_id (?r ! c) \<in> set (map shoe_id ?r)" using that by simp
      then show ?thesis using ids by (metis set_mset_mset)
    qed
    obtain p where p: "p < length (shoes d)" "shoe_id (shoes d ! p) = shoe_id (?r ! a)"
      using mem [OF a] by (auto simp: in_set_conv_nth)
    obtain q where q: "q < length (shoes d)" "shoe_id (shoes d ! q) = shoe_id (?r ! b)"
      using mem [OF b] by (auto simp: in_set_conv_nth)
    have "orderOf ?oi (shoe_id (?r ! a)) = p"
      using orderOf_orderIndex [OF dist p(1)] p(2) by simp
    moreover have "orderOf ?oi (shoe_id (?r ! b)) = q"
      using orderOf_orderIndex [OF dist q(1)] q(2) by simp
    moreover have "p \<noteq> q" using p q idne by auto
    ultimately show ?thesis by simp
  qed
  have fwd: "precedes ?oi (?r ! a) (?r ! b)" if ab: "a < b" and b: "b < length ?r" for a b
  proof -
    have "?le (?r ! a) (?r ! b)"
      using sorted ab b by (simp add: sorted_wrt_iff_nth_less)
    moreover have "orderOf ?oi (shoe_id (?r ! a)) \<noteq> orderOf ?oi (shoe_id (?r ! b))"
      using inj [of a b] ab b by simp
    ultimately show ?thesis
      unfolding precedes_def compareShoes_le by linarith
  qed
  have "(i < j) = precedes ?oi (?r ! i) (?r ! j)"
  proof
    assume "i < j"
    then show "precedes ?oi (?r ! i) (?r ! j)" using fwd j by simp
  next
    assume pr: "precedes ?oi (?r ! i) (?r ! j)"
    show "i < j"
    proof (rule ccontr)
      assume "\<not> i < j"
      then consider "i = j" | "j < i" by linarith
      then show False
      proof cases
        case 1
        with pr show False by (simp add: precedes_def)
      next
        case 2
        from fwd [OF 2 i] pr show False
          unfolding precedes_def by linarith
      qed
    qed
  qed
then show ?thesis by (simp add: precedes_def)
qed

lemma orderIndex_ex: "orderIndex [shoe_a, shoe_b, shoe_c] = [(''a'', 0), (''b'', 1), (''c'', 2)]"
  by (simp add: orderIndex_def shoe_a_def shoe_b_def shoe_c_def upt_rec)


lemma rankedShoes_ex:
  "rankedShoes ex_data ex_state = [rate (ratings ex_state) shoe_c, rate (ratings ex_state) shoe_a, rate (ratings ex_state) shoe_b]"
  by (simp add: rankedShoes_def ex_data_def orderIndex_ex [unfolded shoe_a_def shoe_b_def shoe_c_def]
      compareShoes_def js_sub_le orderOf_def rate_def get0_def ex_state_def shoe_a_def shoe_b_def shoe_c_def)

text \<open>
  C1. For a catalogue whose shoe ids are pairwise different, \<open>rankedShoes\<close> returns the
  rated copies of all shoes (as a multiset, exactly the catalogue with each shoe rated by
  \<^verbatim>\<open>state.ratings[id] ?? 0\<close>); \<open>orderOf (orderIndex \<dots>)\<close> is the position of a shoe in
  \<^verbatim>\<open>DATA.shoes\<close>; and the element at position \<open>i\<close> of the result stands before the one at
  position \<open>j\<close> exactly when its rating is higher, or the ratings are equal and its
  original position is smaller. For shoes a, b, c rated 5, 5, 9 the result is c, a, b.
\<close>

theorem rankedShoes_total_order:
  assumes "distinct (map shoe_id (shoes d))"
  shows "mset (rankedShoes d s) = mset (map (rate (ratings s)) (shoes d))
    \<and> (\<forall>p<length (shoes d). orderOf (orderIndex (shoes d)) (shoe_id (shoes d ! p)) = p)
    \<and> (\<forall>i<length (rankedShoes d s). \<forall>j<length (rankedShoes d s).
          (i < j) =
            (rating (rankedShoes d s ! i) > rating (rankedShoes d s ! j)
             \<or> (rating (rankedShoes d s ! i) = rating (rankedShoes d s ! j)
                \<and> orderOf (orderIndex (shoes d)) (shoe_id (rankedShoes d s ! i))
                  < orderOf (orderIndex (shoes d)) (shoe_id (rankedShoes d s ! j)))))
    \<and> rankedShoes \<lparr>shoes = [shoe_a, shoe_b, shoe_c], questions = []\<rparr>
         \<lparr>screen = Results, currentQuestionId = 0,
          ratings = [(''a'', 5), (''b'', 5), (''c'', 9)]\<rparr>
       = [\<lparr>shoe_id = ''c'', shoe_name = ''Gamma'', rating = 9\<rparr>,
          \<lparr>shoe_id = ''a'', shoe_name = ''Alpha'', rating = 5\<rparr>,
          \<lparr>shoe_id = ''b'', shoe_name = ''Beta'', rating = 5\<rparr>]"
proof -
  have a: "mset (rankedShoes d s) = mset (map (rate (ratings s)) (shoes d))"
    by (simp add: rankedShoes_def mset_js_sort)
  have b: "\<forall>p<length (shoes d). orderOf (orderIndex (shoes d)) (shoe_id (shoes d ! p)) = p"
    using orderOf_orderIndex [OF assms] by simp
  have c: "\<forall>i<length (rankedShoes d s). \<forall>j<length (rankedShoes d s).
          (i < j) =
            (rating (rankedShoes d s ! i) > rating (rankedShoes d s ! j)
             \<or> (rating (rankedShoes d s ! i) = rating (rankedShoes d s ! j)
                \<and> orderOf (orderIndex (shoes d)) (shoe_id (rankedShoes d s ! i))
                  < orderOf (orderIndex (shoes d)) (shoe_id (rankedShoes d s ! j))))"
    using rankedShoes_positions [OF assms] by blast
  have e: "rankedShoes \<lparr>shoes = [shoe_a, shoe_b, shoe_c], questions = []\<rparr>
         \<lparr>screen = Results, currentQuestionId = 0,
          ratings = [(''a'', 5), (''b'', 5), (''c'', 9)]\<rparr>
       = [\<lparr>shoe_id = ''c'', shoe_name = ''Gamma'', rating = 9\<rparr>,
          \<lparr>shoe_id = ''a'', shoe_name = ''Alpha'', rating = 5\<rparr>,
          \<lparr>shoe_id = ''b'', shoe_name = ''Beta'', rating = 5\<rparr>]"
    by (simp add: rankedShoes_def orderIndex_ex [unfolded shoe_a_def shoe_b_def shoe_c_def]
        compareShoes_def js_sub_le orderOf_def rate_def get0_def shoe_a_def shoe_b_def shoe_c_def)
  from a b c e show ?thesis by blast
qed

theorem rankedShoes_total_order_witness:
  "distinct (map shoe_id (shoes ex_data))
   \<and> map shoe_id (rankedShoes ex_data ex_state) = [''c'', ''a'', ''b'']
   \<and> map rating (rankedShoes ex_data ex_state) = [9, 5, 5]
   \<and> mset (rankedShoes ex_data ex_state) = mset (map (rate (ratings ex_state)) (shoes ex_data))"
proof -
  have d: "distinct (map shoe_id (shoes ex_data))"
    by (simp add: ex_data_def shoe_a_def shoe_b_def shoe_c_def)
  have r: "rankedShoes ex_data ex_state =
      [rate (ratings ex_state) shoe_c, rate (ratings ex_state) shoe_a, rate (ratings ex_state) shoe_b]"
    by (rule rankedShoes_ex)
  have m: "mset (rankedShoes ex_data ex_state) = mset (map (rate (ratings ex_state)) (shoes ex_data))"
    using rankedShoes_total_order [OF d, of ex_state] by blast
  show ?thesis using d r m
    by (simp add: rate_def get0_def ex_state_def shoe_a_def shoe_b_def shoe_c_def)
qed

section \<open>Fresh sessions\<close>

lemma fold_createInitial:
  "distinct (map shoe_id ss) \<Longrightarrow> shoe_id ` set ss \<inter> fst ` set acc = {} \<Longrightarrow>
   \<forall>s\<in>set ss. index_of_key (shoe_id s) = None \<Longrightarrow>
   fold (\<lambda>s ratings. js_set (shoe_id s) 0 ratings) ss acc = acc @ map (\<lambda>s. (shoe_id s, 0)) ss"
proof (induction ss arbitrary: acc)
  case Nil
  show ?case by simp
next
  case (Cons s ss)
  have fresh: "shoe_id s \<notin> fst ` set acc" using Cons.prems by auto
  have name: "index_of_key (shoe_id s) = None" using Cons.prems by simp
  have d: "distinct (map shoe_id ss)" using Cons.prems by simp
  have disj: "shoe_id ` set ss \<inter> fst ` set (acc @ [(shoe_id s, 0)]) = {}"
    using Cons.prems by auto
  have names: "\<forall>s\<in>set ss. index_of_key (shoe_id s) = None" using Cons.prems by simp
  show ?case
    using Cons.IH [OF d disj names] by (simp add: js_set_fresh_name [OF fresh name])
qed

lemma map_of_fold_createInitial:
  "map_of (fold (\<lambda>s ratings. js_set (shoe_id s) (0::int) ratings) ss acc) k =
     (if k \<in> shoe_id ` set ss then Some 0 else map_of acc k)"
  by (induction ss arbitrary: acc) (auto simp: map_of_js_set)

lemma distinct_fold_createInitial:
  "distinct (map fst acc) \<Longrightarrow>
   distinct (map fst (fold (\<lambda>s ratings. js_set (shoe_id s) (0::int) ratings) ss acc))"
  by (induction ss arbitrary: acc) (auto simp: distinct_js_set)

lemma similar_cases:
  "similar ranked = map (\<lambda>i. ranked ! i) (filter (\<lambda>i. i < length ranked) [1, 2])"
proof (cases ranked)
  case Nil
  then show ?thesis by (simp add: similar_def slice_def)
next
  case (Cons a r1)
  show ?thesis
  proof (cases r1)
    case Nil
    with Cons show ?thesis by (simp add: similar_def slice_def)
  next
    case (Cons b r2)
    with \<open>ranked = a # r1\<close> show ?thesis
      by (cases r2) (simp_all add: similar_def slice_def)
  qed
qed


lemma createInitialRatings_lookup:
  "map_of (createInitialRatings ss) k = (if k \<in> shoe_id ` set ss then Some 0 else None)"
  by (simp add: createInitialRatings_def map_of_fold_createInitial)

lemma createInitialRatings_keys: "distinct (map fst (createInitialRatings ss))"
  by (simp add: createInitialRatings_def distinct_fold_createInitial)

lemma createInitialRatings_distinct:
  "distinct (map shoe_id ss) \<Longrightarrow> \<forall>s\<in>set ss. index_of_key (shoe_id s) = None \<Longrightarrow>
   createInitialRatings ss = map (\<lambda>s. (shoe_id s, 0)) ss"
  using fold_createInitial [of ss "[]"] by (simp add: createInitialRatings_def)

lemma takeWhile_insort:
  "takeWhile (\<lambda>y. f y < f x) xs @ x # dropWhile (\<lambda>y. f y < f x) xs = insort_key f x xs"
  for f :: "'a \<Rightarrow> int"
  by (induction xs) auto

lemma takeWhile_append_none:
  "\<forall>y\<in>set ys. \<not> P y \<Longrightarrow> takeWhile P (xs @ ys) = takeWhile P xs"
  by (induction xs) (auto simp: takeWhile_eq_Nil_iff)

lemma dropWhile_append_none:
  "\<forall>y\<in>set ys. \<not> P y \<Longrightarrow> dropWhile P (xs @ ys) = dropWhile P xs @ ys"
  by (induction xs) (auto simp: dropWhile_eq_self_iff)

text \<open>
  Setting a new key in an object whose entries are array indices \<open>I\<close> followed by names
  \<open>N\<close>: a name goes to the end, an array index to its place among the indices.
\<close>

lemma js_set_ordered:
  assumes fresh: "k \<notin> set I \<union> set N"
    and idx: "\<forall>x\<in>set I. index_of_key x \<noteq> None"
    and names: "\<forall>x\<in>set N. index_of_key x = None"
  shows "js_set k v (map (\<lambda>x. (x, v)) (I @ N)) =
     (case index_of_key k of
        None \<Rightarrow> map (\<lambda>x. (x, v)) (I @ (N @ [k]))
      | Some i \<Rightarrow> map (\<lambda>x. (x, v)) (insort_key (the \<circ> index_of_key) k I @ N))"
proof -
  let ?obj = "map (\<lambda>x. (x, v)) (I @ N)"
  have none: "map_of ?obj k = None"
    using fresh by (simp add: map_of_eq_None_iff image_image)
  show ?thesis
  proof (cases "index_of_key k")
    case None
    with none show ?thesis by (simp add: js_set_def)
  next
    case (Some i)
    let ?P = "comes_before i :: string \<times> 'a \<Rightarrow> bool"
    let ?Q = "\<lambda>y. (the \<circ> index_of_key) y < (the \<circ> index_of_key) k"
    have n: "\<forall>y\<in>set (map (\<lambda>x. (x, v)) N). \<not> ?P y"
      using names by (simp add: comes_before_def)
    have on_I: "?P (x, v) = ?Q x" if "x \<in> set I" for x
      using idx that Some by (auto simp: comes_before_def)
    have tw: "takeWhile ?P (map (\<lambda>x. (x, v)) I) = map (\<lambda>x. (x, v)) (takeWhile ?Q I)"
      using on_I by (simp add: takeWhile_map comp_def cong: takeWhile_cong)
    have dw: "dropWhile ?P (map (\<lambda>x. (x, v)) I) = map (\<lambda>x. (x, v)) (dropWhile ?Q I)"
      using on_I by (simp add: dropWhile_map comp_def cong: dropWhile_cong)
    have "takeWhile ?P ?obj @ (k, v) # dropWhile ?P ?obj
        = map (\<lambda>x. (x, v)) (takeWhile ?Q I @ k # dropWhile ?Q I) @ map (\<lambda>x. (x, v)) N"
      using takeWhile_append_none [OF n] dropWhile_append_none [OF n]
      by (simp add: tw dw)
    also have "takeWhile ?Q I @ k # dropWhile ?Q I = insort_key (the \<circ> index_of_key) k I"
      by (rule takeWhile_insort)
    finally show ?thesis using none Some by (simp add: js_set_def)
  qed
qed

lemma fold_js_set_ordered:
  assumes "distinct (map shoe_id ss)" and "shoe_id ` set ss \<inter> (set I \<union> set N) = {}"
    and "\<forall>x\<in>set I. index_of_key x \<noteq> None" and "\<forall>x\<in>set N. index_of_key x = None"
  shows "fold (\<lambda>s ratings. js_set (shoe_id s) (0::int) ratings) ss (map (\<lambda>x. (x, 0)) (I @ N)) =
     map (\<lambda>x. (x, 0))
       (fold (insort_key (the \<circ> index_of_key))
           (filter (\<lambda>x. index_of_key x \<noteq> None) (map shoe_id ss)) I
        @ (N @ filter (\<lambda>x. index_of_key x = None) (map shoe_id ss)))"
  using assms
proof (induction ss arbitrary: I N)
  case Nil
  show ?case by simp
next
  case (Cons s ss)
  have fresh: "shoe_id s \<notin> set I \<union> set N" using Cons.prems(2) by auto
  have d: "distinct (map shoe_id ss)" and notin: "shoe_id s \<notin> shoe_id ` set ss"
    using Cons.prems(1) by simp_all
  note step = js_set_ordered [OF fresh Cons.prems(3) Cons.prems(4), of "0::int"]
  show ?case
  proof (cases "index_of_key (shoe_id s)")
    case None
    have disj: "shoe_id ` set ss \<inter> (set I \<union> set (N @ [shoe_id s])) = {}"
      using Cons.prems(2) notin by auto
    have names: "\<forall>x\<in>set (N @ [shoe_id s]). index_of_key x = None"
      using Cons.prems(4) None by simp
    have "js_set (shoe_id s) (0::int) (map (\<lambda>x. (x, 0)) (I @ N))
        = map (\<lambda>x. (x, 0)) (I @ (N @ [shoe_id s]))"
      using step None by simp
    then have "fold (\<lambda>s ratings. js_set (shoe_id s) (0::int) ratings) (s # ss)
                 (map (\<lambda>x. (x, 0)) (I @ N))
        = fold (\<lambda>s ratings. js_set (shoe_id s) (0::int) ratings) ss
                 (map (\<lambda>x. (x, 0)) (I @ (N @ [shoe_id s])))"
      by simp
    also note Cons.IH [OF d disj Cons.prems(3) names]
    finally show ?thesis using None by simp
  next
    case (Some i)
    let ?I = "insort_key (the \<circ> index_of_key) (shoe_id s) I"
    have disj: "shoe_id ` set ss \<inter> (set ?I \<union> set N) = {}"
      using Cons.prems(2) notin by (auto simp: set_insort_key)
    have idx: "\<forall>x\<in>set ?I. index_of_key x \<noteq> None"
      using Cons.prems(3) Some by (simp add: set_insort_key)
    have "js_set (shoe_id s) (0::int) (map (\<lambda>x. (x, 0)) (I @ N))
        = map (\<lambda>x. (x, 0)) (?I @ N)"
      using step Some by simp
    then have "fold (\<lambda>s ratings. js_set (shoe_id s) (0::int) ratings) (s # ss)
                 (map (\<lambda>x. (x, 0)) (I @ N))
        = fold (\<lambda>s ratings. js_set (shoe_id s) (0::int) ratings) ss
                 (map (\<lambda>x. (x, 0)) (?I @ N))"
      by simp
    also note Cons.IH [OF d disj idx Cons.prems(4)]
    finally show ?thesis using Some by (simp add: comp_def)
  qed
qed

lemma fold_insort_key:
  "mset (fold (insort_key f) xs acc) = mset xs + mset acc
   \<and> (sorted (map f acc) \<longrightarrow> sorted (map f (fold (insort_key f) xs acc)))"
  by (induction xs arbitrary: acc) (simp_all add: sorted_insort_key)

lemma createInitialRatings_order:
  assumes "distinct (map shoe_id ss)"
  shows "\<exists>I. createInitialRatings ss =
           map (\<lambda>x. (x, 0)) (I @ filter (\<lambda>x. index_of_key x = None) (map shoe_id ss))
         \<and> mset I = mset (filter (\<lambda>x. index_of_key x \<noteq> None) (map shoe_id ss))
         \<and> sorted (map (the \<circ> index_of_key) I)"
proof -
  let ?I = "fold (insort_key (the \<circ> index_of_key))
              (filter (\<lambda>x. index_of_key x \<noteq> None) (map shoe_id ss)) []"
  have "createInitialRatings ss =
      map (\<lambda>x. (x, 0)) (?I @ filter (\<lambda>x. index_of_key x = None) (map shoe_id ss))"
    using fold_js_set_ordered [OF assms, of "[]" "[]"] by (simp add: createInitialRatings_def)
  moreover have "mset ?I = mset (filter (\<lambda>x. index_of_key x \<noteq> None) (map shoe_id ss))"
    "sorted (map (the \<circ> index_of_key) ?I)"
    using fold_insort_key [of "the \<circ> index_of_key" _ "[]"] by simp_all
  ultimately show ?thesis by blast
qed

lemma fresh_quiz_update:
  assumes "DATA w = Some d" and "questionsById w = Some m" and "f = StartQuizFn \<or> f = RestartQuizFn"
  shows "\<exists>w'. run_updateFn f w = Inr w'
           \<and> state w' = Some \<lparr>screen = Quiz, currentQuestionId = 0,
                               ratings = createInitialRatings (shoes d)\<rparr>
           \<and> isTransitioning w' = isTransitioning w
           \<and> stageListeners w' = stageListeners w"
  using assms
  by (cases "map_of m 0")
     (auto simp: initialState_def showOnly_def renderQuestionScreen_def getQuestion_def)

lemma home_update:
  assumes "DATA w = Some d"
  shows "\<exists>w'. run_updateFn GoToStartFn w = Inr w'
           \<and> state w' = Some \<lparr>screen = Start, currentQuestionId = 0,
                               ratings = createInitialRatings (shoes d)\<rparr>"
  using assms by (simp add: initialState_def showOnly_def)

lemma restart_events:
  assumes "DATA w = Some d" and "questionsById w = Some m"
    and "\<not> isTransitioning w" and "stageListeners w = []"
  shows "\<exists>w'. run_events [RestartClick, TransitionEnd StageEl ''opacity''] w = Inr w'
           \<and> state w' = Some \<lparr>screen = Quiz, currentQuestionId = 0,
                               ratings = createInitialRatings (shoes d)\<rparr>"
proof -
  let ?w0 = "w\<lparr>isTransitioning := True, page := (page w)\<lparr>stage_is_out := True\<rparr>,
               stageListeners := []\<rparr>"
  have "DATA ?w0 = Some d" "questionsById ?w0 = Some m" using assms by simp_all
  from fresh_quiz_update [OF this, of RestartQuizFn]
  obtain w1 where w1: "run_updateFn RestartQuizFn ?w0 = Inr w1"
    "state w1 = Some \<lparr>screen = Quiz, currentQuestionId = 0, ratings = createInitialRatings (shoes d)\<rparr>"
    by blast
  show ?thesis
    using assms(3,4) w1
    by (simp add: restartQuiz_def transitionTo_def transitionend_def listeners_of_def)
qed

text \<open>
  C5. With a loaded data file, \<open>initialState\<close> returns the screen \<^verbatim>\<open>start\<close>, the current
  question 0 and ratings that hold 0 for every shoe id of the catalogue and nothing else,
  one entry per id. When the ids are pairwise different, the entries are listed with the
  ids that are array indices first, in ascending numeric order, followed by the other
  ids in catalogue order; so they are the entries \<open>(id, 0)\<close> in catalogue order when no id
  is an array index. The update functions of start, restart and home replace \<^verbatim>\<open>state\<close> by
  such a fresh state (then shown on the quiz or the start screen), whatever the state
  was before; so does a click on restart followed by the end of the fade-out.
\<close>

theorem initialState_fresh_session:
  assumes "DATA w = Some d" and "questionsById w = Some m"
  shows "initialState w = Inr \<lparr>screen = Start, currentQuestionId = 0,
                               ratings = createInitialRatings (shoes d)\<rparr>
    \<and> (\<forall>k. map_of (createInitialRatings (shoes d)) k =
            (if k \<in> shoe_id ` set (shoes d) then Some 0 else None))
    \<and> distinct (map fst (createInitialRatings (shoes d)))
    \<and> (distinct (map shoe_id (shoes d)) \<longrightarrow>
          (\<exists>I. createInitialRatings (shoes d) =
                  map (\<lambda>x. (x, 0))
                    (I @ filter (\<lambda>x. index_of_key x = None) (map shoe_id (shoes d)))
              \<and> mset I = mset (filter (\<lambda>x. index_of_key x \<noteq> None) (map shoe_id (shoes d)))
              \<and> sorted (map (the \<circ> index_of_key) I)))
    \<and> (distinct (map shoe_id (shoes d))
         \<and> (\<forall>s\<in>set (shoes d). index_of_key (shoe_id s) = None) \<longrightarrow>
          createInitialRatings (shoes d) = map (\<lambda>s. (shoe_id s, 0)) (shoes d))
    \<and> (\<exists>w'. run_updateFn StartQuizFn w = Inr w'
           \<and> state w' = Some \<lparr>screen = Quiz, currentQuestionId = 0,
                               ratings = createInitialRatings (shoes d)\<rparr>)
    \<and> (\<exists>w'. run_updateFn RestartQuizFn w = Inr w'
           \<and> state w' = Some \<lparr>screen = Quiz, currentQuestionId = 0,
                               ratings = createInitialRatings (shoes d)\<rparr>)
    \<and> (\<exists>w'. run_updateFn GoToStartFn w = Inr w'
           \<and> state w' = Some \<lparr>screen = Start, currentQuestionId = 0,
                               ratings = createInitialRatings (shoes d)\<rparr>)
    \<and> (\<not> isTransitioning w \<and> stageListeners w = [] \<longrightarrow>
         (\<exists>w'. run_events [RestartClick, TransitionEnd StageEl ''opacity''] w = Inr w'
            \<and> state w' = Some \<lparr>screen = Quiz, currentQuestionId = 0,
                                ratings = createInitialRatings (shoes d)\<rparr>))"
proof -
  have a: "initialState w = Inr \<lparr>screen = Start, currentQuestionId = 0,
                               ratings = createInitialRatings (shoes d)\<rparr>"
    using assms(1) by (simp add: initialState_def)
  have s: "\<exists>w'. run_updateFn StartQuizFn w = Inr w'
           \<and> state w' = Some \<lparr>screen = Quiz, currentQuestionId = 0,
                               ratings = createInitialRatings (shoes d)\<rparr>"
    using fresh_quiz_update [OF assms, of StartQuizFn] by blast
  have r: "\<exists>w'. run_updateFn RestartQuizFn w = Inr w'
           \<and> state w' = Some \<lparr>screen = Quiz, currentQuestionId = 0,
                               ratings = createInitialRatings (shoes d)\<rparr>"
    using fresh_quiz_update [OF assms, of RestartQuizFn] by blast
  have l: "\<forall>k. map_of (createInitialRatings (shoes d)) k =
            (if k \<in> shoe_id ` set (shoes d) then Some 0 else None)"
    using createInitialRatings_lookup [of "shoes d"] by blast
  have o: "distinct (map shoe_id (shoes d)) \<longrightarrow>
          (\<exists>I. createInitialRatings (shoes d) =
                  map (\<lambda>x. (x, 0))
                    (I @ filter (\<lambda>x. index_of_key x = None) (map shoe_id (shoes d)))
              \<and> mset I = mset (filter (\<lambda>x. index_of_key x \<noteq> None) (map shoe_id (shoes d)))
              \<and> sorted (map (the \<circ> index_of_key) I))"
    using createInitialRatings_order [of "shoes d"] by blast
  have n: "distinct (map shoe_id (shoes d))
         \<and> (\<forall>s\<in>set (shoes d). index_of_key (shoe_id s) = None) \<longrightarrow>
          createInitialRatings (shoes d) = map (\<lambda>s. (shoe_id s, 0)) (shoes d)"
    using createInitialRatings_distinct [of "shoes d"] by blast
  have h: "\<exists>w'. run_updateFn GoToStartFn w = Inr w'
           \<and> state w' = Some \<lparr>screen = Start, currentQuestionId = 0,
                               ratings = createInitialRatings (shoes d)\<rparr>"
    using home_update [OF assms(1)] by blast
  have e: "\<not> isTransitioning w \<and> stageListeners w = [] \<longrightarrow>
         (\<exists>w'. run_events [RestartClick, TransitionEnd StageEl ''opacity''] w = Inr w'
            \<and> state w' = Some \<lparr>screen = Quiz, currentQuestionId = 0,
                                ratings = createInitialRatings (shoes d)\<rparr>)"
    using restart_events [OF assms] by blast
  from a l createInitialRatings_keys [of "shoes d"] o n s r h e
  show ?thesis by (intro conjI)
qed

theorem initialState_fresh_session_witness:
  "DATA ex_world = Some ex_data
   \<and> questionsById ex_world = Some (buildQuestionsMap ex_questions)
   \<and> distinct (map shoe_id (shoes ex_data))
   \<and> index_of_key (shoe_id shoe_a) = None \<and> index_of_key (shoe_id shoe_b) = None
   \<and> index_of_key (shoe_id shoe_c) = None
   \<and> \<not> isTransitioning ex_world \<and> stageListeners ex_world = []
   \<and> state ex_world = Some ex_state
   \<and> ratings ex_state = [(''a'', 5), (''b'', 5), (''c'', 9)]
   \<and> createInitialRatings (shoes ex_data) = [(''a'', 0), (''b'', 0), (''c'', 0)]
   \<and> initialState ex_world =
       Inr \<lparr>screen = Start, currentQuestionId = 0,
            ratings = [(''a'', 0), (''b'', 0), (''c'', 0)]\<rparr>
   \<and> (\<exists>w'. run_events [RestartClick, TransitionEnd StageEl ''opacity''] ex_world = Inr w'
          \<and> state w' = Some \<lparr>screen = Quiz, currentQuestionId = 0,
                              ratings = [(''a'', 0), (''b'', 0), (''c'', 0)]\<rparr>)"
proof -
  have d: "DATA ex_world = Some ex_data"
    and q: "questionsById ex_world = Some (buildQuestionsMap ex_questions)"
    and g: "\<not> isTransitioning ex_world \<and> stageListeners ex_world = []"
    by (simp_all add: ex_world_def)
  have i: "distinct (map shoe_id (shoes ex_data))"
    by (simp add: ex_data_def shoe_a_def shoe_b_def shoe_c_def)
  have k: "index_of_key (shoe_id shoe_a) = None" "index_of_key (shoe_id shoe_b) = None"
    "index_of_key (shoe_id shoe_c) = None"
    by (simp_all add: shoe_a_def shoe_b_def shoe_c_def ex_keys)
  have ks: "\<forall>s\<in>set (shoes ex_data). index_of_key (shoe_id s) = None"
    using k by (simp add: ex_data_def)
  have s: "state ex_world = Some ex_state" by (simp add: ex_world_def)
  from initialState_fresh_session [OF d q] i ks
  have c: "createInitialRatings (shoes ex_data) = map (\<lambda>s. (shoe_id s, 0)) (shoes ex_data)"
    by blast
  have c': "createInitialRatings (shoes ex_data) = [(''a'', 0), (''b'', 0), (''c'', 0)]"
    by (simp add: c) (simp add: ex_data_def shoe_a_def shoe_b_def shoe_c_def)
  have main: "initialState ex_world =
       Inr \<lparr>screen = Start, currentQuestionId = 0,
            ratings = [(''a'', 0), (''b'', 0), (''c'', 0)]\<rparr>
   \<and> (\<exists>w'. run_events [RestartClick, TransitionEnd StageEl ''opacity''] ex_world = Inr w'
          \<and> state w' = Some \<lparr>screen = Quiz, currentQuestionId = 0,
                              ratings = [(''a'', 0), (''b'', 0), (''c'', 0)]\<rparr>)"
    using initialState_fresh_session [OF d q] g
    by (simp add: c')
  have r: "ratings ex_state = [(''a'', 5), (''b'', 5), (''c'', 9)]"
    by (simp add: ex_state_def)
  from main d q g i k s r c' show ?thesis by blast
qed

text \<open>
  In the catalogue with the ids b, 10 and 2, in this order, the fresh ratings list 2
  first, then 10, then b.
\<close>

theorem initialState_dataset_order_counterexample:
  "map shoe_id (shoes ex_numbered) = [''b'', ''10'', ''2'']
   \<and> DATA ex_world_numbered = Some ex_numbered
   \<and> initialState ex_world_numbered =
       Inr \<lparr>screen = Start, currentQuestionId = 0,
            ratings = [(''2'', 0), (''10'', 0), (''b'', 0)]\<rparr>"
  by code_simp

section \<open>Results\<close>

text \<open>
  C6. Of a ranked list, \<open>recommended\<close> is the first element, or nothing for the empty
  list, and \<open>similar\<close> is the elements at positions 1 and 2 that exist, in their order:
  none for a list of length 0 or 1, one for length 2, two from length 3 on. The result
  screen receives exactly these as its tiles.
\<close>

theorem selectResults_first_three:
  "recommended ranked = (if ranked = [] then None else Some (ranked ! 0))
   \<and> similar ranked = map (\<lambda>i. ranked ! i) (filter (\<lambda>i. i < length ranked) [1, 2])
   \<and> (length ranked = 0 \<longrightarrow> recommended ranked = None \<and> similar ranked = [])
   \<and> (length ranked = 1 \<longrightarrow> recommended ranked = Some (ranked ! 0) \<and> similar ranked = [])
   \<and> (length ranked = 2 \<longrightarrow>
        recommended ranked = Some (ranked ! 0) \<and> similar ranked = [ranked ! 1])
   \<and> (length ranked \<ge> 3 \<longrightarrow>
        recommended ranked = Some (ranked ! 0) \<and> similar ranked = [ranked ! 1, ranked ! 2])
   \<and> recommendedSlot (renderRanked ranked p) =
        (case recommended ranked of None \<Rightarrow> [] | Some r \<Rightarrow> [r])
   \<and> similarGrid (renderRanked ranked p) = similar ranked"
proof -
  have r: "recommended ranked = (if ranked = [] then None else Some (ranked ! 0))"
    by (cases ranked) (simp_all add: recommended_def)
  have s: "similar ranked = map (\<lambda>i. ranked ! i) (filter (\<lambda>i. i < length ranked) [1, 2])"
    by (rule similar_cases)
  have d: "recommendedSlot (renderRanked ranked p) =
        (case recommended ranked of None \<Rightarrow> [] | Some r \<Rightarrow> [r])
     \<and> similarGrid (renderRanked ranked p) = similar ranked"
    by (simp add: renderRanked_def)
  have l0: "length ranked = 0 \<longrightarrow> recommended ranked = None \<and> similar ranked = []"
    using r s by auto
  have l1: "length ranked = 1 \<longrightarrow> recommended ranked = Some (ranked ! 0) \<and> similar ranked = []"
    using r s by auto
  have l2: "length ranked = 2 \<longrightarrow>
        recommended ranked = Some (ranked ! 0) \<and> similar ranked = [ranked ! 1]"
    using r s by auto
  have l3: "length ranked \<ge> 3 \<longrightarrow>
        recommended ranked = Some (ranked ! 0) \<and> similar ranked = [ranked ! 1, ranked ! 2]"
    using r s by auto
  from r s d l0 l1 l2 l3 show ?thesis by blast
qed

theorem selectResults_first_three_witness:
  "recommended [] = None \<and> similar [] = []
   \<and> recommended [rate [] shoe_a] = Some (rate [] shoe_a) \<and> similar [rate [] shoe_a] = []
   \<and> recommended [rate [] shoe_a, rate [] shoe_b] = Some (rate [] shoe_a)
   \<and> similar [rate [] shoe_a, rate [] shoe_b] = [rate [] shoe_b]
   \<and> similar [rate [] shoe_c, rate [] shoe_a, rate [] shoe_b, rate [] shoe_a]
       = [rate [] shoe_a, rate [] shoe_b]"
  using selectResults_first_three [of "[]" ex_page]
    selectResults_first_three [of "[rate [] shoe_a]" ex_page]
    selectResults_first_three [of "[rate [] shoe_a, rate [] shoe_b]" ex_page]
    selectResults_first_three [of "[rate [] shoe_c, rate [] shoe_a, rate [] shoe_b, rate [] shoe_a]" ex_page]
  by simp

section \<open>Scoring\<close>

lemma increase_fields [simp]:
  "screen (increase e s) = screen s" "currentQuestionId (increase e s) = currentQuestionId s"
  by (cases e; simp add: increase_def)+

lemma fold_increase_fields [simp]:
  "screen (fold increase es s) = screen s"
  "currentQuestionId (fold increase es s) = currentQuestionId s"
  by (induction es arbitrary: s) simp_all





text \<open>What \<^verbatim>\<open>applyRatingIncrease\<close> leaves in \<^verbatim>\<open>state\<close>.\<close>

lemma applyRatingIncrease_loaded:
  "state w = Some s \<Longrightarrow>
   applyRatingIncrease ri w =
     Inr (w\<lparr>state := Some (case ri of None \<Rightarrow> s | Some es \<Rightarrow> fold increase es s)\<rparr>)"
  by (cases ri) (simp_all add: applyRatingIncrease_def)

lemma handleAnswerClick_terminal:
  assumes "questionsById w = Some m" and "map_of m qid = Some q"
    and "0 \<le> ai" and "nat ai < length (answers q)" and "state w = Some s"
    and "nextQuestion (answers q ! nat ai) \<in> {Undefined, Null, EmptyString}"
    and "\<not> isTransitioning w"
  shows "handleAnswerClick qid ai w =
    Inr (w\<lparr>state := Some ((case ratingIncrease (answers q ! nat ai) of
                              None \<Rightarrow> s | Some es \<Rightarrow> fold increase es s)\<lparr>screen := Loading\<rparr>),
           isTransitioning := True,
           page := (page w)\<lparr>shown := {Loading}, body_is_results := False\<rparr>,
           timers := timers w @ [ShowResultsTimer]\<rparr>)"
  using assms
  by (auto simp: handleAnswerClick_def getQuestion_def applyRatingIncrease_loaded showOnly_def)

lemma handleAnswerClick_continue:
  assumes "questionsById w = Some m" and "map_of m qid = Some q"
    and "0 \<le> ai" and "nat ai < length (answers q)" and "state w = Some s"
    and "nextQuestion (answers q ! nat ai) = QuestionNo n"
    and "\<not> isTransitioning w"
  shows "handleAnswerClick qid ai w =
    Inr (if screen s = Quiz
         then w\<lparr>state := Some (case ratingIncrease (answers q ! nat ai) of
                                 None \<Rightarrow> s | Some es \<Rightarrow> fold increase es s),
                 isTransitioning := True,
                 page := (page w)\<lparr>quiz_is_fading := True\<rparr>,
                 quizContentListeners := quizContentListeners w @ [onFadeOutEnd (RenderNextFn n)]\<rparr>
         else w\<lparr>state := Some (case ratingIncrease (answers q ! nat ai) of
                                 None \<Rightarrow> s | Some es \<Rightarrow> fold increase es s),
                 isTransitioning := True,
                 page := (page w)\<lparr>stage_is_out := True\<rparr>,
                 stageListeners := stageListeners w @ [onOutEnd (RenderNextFn n)]\<rparr>)"
  using assms
  by (cases "ratingIncrease (answers q ! nat ai)")
     (auto simp: handleAnswerClick_def getQuestion_def applyRatingIncrease_loaded
        fadeQuizContentAndUpdate_def transitionTo_def)




lemma ex_index:
  "map_of (buildQuestionsMap ex_questions) 0 = Some (ex_questions ! 0)"
  "map_of (buildQuestionsMap ex_questions) 1 = Some (ex_questions ! 1)"
  "map_of (buildQuestionsMap ex_questions) 7 = None"
  by (simp_all add: buildQuestionsMap_def ex_questions_def)

lemma ex_world_fields:
  "questionsById ex_world = Some (buildQuestionsMap ex_questions)"
  "state ex_world = Some ex_state" "DATA ex_world = Some ex_data"
  "\<not> isTransitioning ex_world" "timers ex_world = []"
  "stageListeners ex_world = []" "quizContentListeners ex_world = []"
  by (simp_all add: ex_world_def)




section \<open>The two ways an answer is handled\<close>

text \<open>
  C3. For a question and an answer that exist, and with no transition in flight (the
  click listener calls \<open>handleAnswerClick\<close> only then), the handler ends the quiz exactly
  when the answer's \<^verbatim>\<open>nextQuestion\<close> is missing, \<^verbatim>\<open>null\<close> or the empty string: it shows the
  loading screen and starts the results timer, and the resulting page is the same for
  the three spellings. For a question number \<open>n\<close> it instead registers the fade-out
  listener that will render question \<open>n\<close>, and starts no timer.
\<close>

theorem handleAnswerClick_finishes_or_continues:
  assumes "questionsById w = Some m" and "map_of m qid = Some q"
    and "0 \<le> ai" and "nat ai < length (answers q)" and "state w = Some s"
    and "\<not> isTransitioning w"
  shows "(nextQuestion (answers q ! nat ai) \<in> {Undefined, Null, EmptyString} \<longrightarrow>
           handleAnswerClick qid ai w =
             Inr (w\<lparr>state := Some ((case ratingIncrease (answers q ! nat ai) of
                                       None \<Rightarrow> s | Some es \<Rightarrow> fold increase es s)
                                     \<lparr>screen := Loading\<rparr>),
                    isTransitioning := True,
                    page := (page w)\<lparr>shown := {Loading}, body_is_results := False\<rparr>,
                    timers := timers w @ [ShowResultsTimer]\<rparr>))
    \<and> (\<forall>n. nextQuestion (answers q ! nat ai) = QuestionNo n \<longrightarrow>
           handleAnswerClick qid ai w =
             Inr (if screen s = Quiz
                  then w\<lparr>state := Some (case ratingIncrease (answers q ! nat ai) of
                                          None \<Rightarrow> s | Some es \<Rightarrow> fold increase es s),
                          isTransitioning := True,
                          page := (page w)\<lparr>quiz_is_fading := True\<rparr>,
                          quizContentListeners :=
                            quizContentListeners w @ [onFadeOutEnd (RenderNextFn n)]\<rparr>
                  else w\<lparr>state := Some (case ratingIncrease (answers q ! nat ai) of
                                          None \<Rightarrow> s | Some es \<Rightarrow> fold increase es s),
                          isTransitioning := True,
                          page := (page w)\<lparr>stage_is_out := True\<rparr>,
                          stageListeners := stageListeners w @ [onOutEnd (RenderNextFn n)]\<rparr>))
    \<and> ((\<exists>w'. handleAnswerClick qid ai w = Inr w'
             \<and> timers w' = timers w @ [ShowResultsTimer]
             \<and> map_option screen (state w') = Some Loading)
        \<longleftrightarrow> nextQuestion (answers q ! nat ai) \<in> {Undefined, Null, EmptyString})"
proof -
  let ?next = "nextQuestion (answers q ! nat ai)"
  have t: "?next \<in> {Undefined, Null, EmptyString} \<longrightarrow>
           handleAnswerClick qid ai w =
             Inr (w\<lparr>state := Some ((case ratingIncrease (answers q ! nat ai) of
                                       None \<Rightarrow> s | Some es \<Rightarrow> fold increase es s)
                                     \<lparr>screen := Loading\<rparr>),
                    isTransitioning := True,
                    page := (page w)\<lparr>shown := {Loading}, body_is_results := False\<rparr>,
                    timers := timers w @ [ShowResultsTimer]\<rparr>)"
    using handleAnswerClick_terminal [OF assms(1-5) _ assms(6)] by blast
  have c: "\<forall>n. ?next = QuestionNo n \<longrightarrow>
           handleAnswerClick qid ai w =
             Inr (if screen s = Quiz
                  then w\<lparr>state := Some (case ratingIncrease (answers q ! nat ai) of
                                          None \<Rightarrow> s | Some es \<Rightarrow> fold increase es s),
                          isTransitioning := True,
                          page := (page w)\<lparr>quiz_is_fading := True\<rparr>,
                          quizContentListeners :=
                            quizContentListeners w @ [onFadeOutEnd (RenderNextFn n)]\<rparr>
                  else w\<lparr>state := Some (case ratingIncrease (answers q ! nat ai) of
                                          None \<Rightarrow> s | Some es \<Rightarrow> fold increase es s),
                          isTransitioning := True,
                          page := (page w)\<lparr>stage_is_out := True\<rparr>,
                          stageListeners := stageListeners w @ [onOutEnd (RenderNextFn n)]\<rparr>)"
    using handleAnswerClick_continue [OF assms(1-5) _ assms(6)] by blast
  have e: "(\<exists>w'. handleAnswerClick qid ai w = Inr w'
             \<and> timers w' = timers w @ [ShowResultsTimer]
             \<and> map_option screen (state w') = Some Loading)
        \<longleftrightarrow> ?next \<in> {Undefined, Null, EmptyString}"
  proof (cases "?next \<in> {Undefined, Null, EmptyString}")
    case True
    let ?W = "w\<lparr>state := Some ((case ratingIncrease (answers q ! nat ai) of
                                       None \<Rightarrow> s | Some es \<Rightarrow> fold increase es s)
                                     \<lparr>screen := Loading\<rparr>),
                    isTransitioning := True,
                    page := (page w)\<lparr>shown := {Loading}, body_is_results := False\<rparr>,
                    timers := timers w @ [ShowResultsTimer]\<rparr>"
    have "handleAnswerClick qid ai w = Inr ?W" using t True by blast
    moreover have "timers ?W = timers w @ [ShowResultsTimer]" by simp
    moreover have "map_option screen (state ?W) = Some Loading" by simp
    ultimately show ?thesis using True by blast
  next
    case False
    then obtain n where n: "?next = QuestionNo n" by (cases ?next) simp_all
    have "\<not> (\<exists>w'. handleAnswerClick qid ai w = Inr w'
             \<and> timers w' = timers w @ [ShowResultsTimer])"
      using c n by (auto split: if_splits)
    with False show ?thesis by blast
  qed
  from t c e show ?thesis by blast
qed

lemma ex_answers:
  "nat 0 < length (answers (ex_questions ! 1))"
  "nat 1 < length (answers (ex_questions ! 1))"
  "nat 2 < length (answers (ex_questions ! 1))"
  "nat 0 < length (answers (ex_questions ! 0))"
  "nextQuestion (answers (ex_questions ! 1) ! nat 0) = Null"
  "nextQuestion (answers (ex_questions ! 1) ! nat 1) = EmptyString"
  "nextQuestion (answers (ex_questions ! 1) ! nat 2) = Undefined"
  "nextQuestion (answers (ex_questions ! 0) ! nat 0) = QuestionNo 1"
  "ratingIncrease (answers (ex_questions ! 1) ! nat 0) = Some [(''a'', 3), (''b'', 1)]"
  "ratingIncrease (answers (ex_questions ! 1) ! nat 1) = Some [(''d'', 4)]"
  "ratingIncrease (answers (ex_questions ! 1) ! nat 2) = None"
  "ratingIncrease (answers (ex_questions ! 0) ! nat 0) = Some [(''a'', 3), (''b'', 1)]"
  by (simp_all add: ex_questions_def)

theorem handleAnswerClick_finishes_or_continues_witness:
  "questionsById ex_world = Some (buildQuestionsMap ex_questions)
   \<and> map_of (buildQuestionsMap ex_questions) 1 = Some (ex_questions ! 1)
   \<and> map_of (buildQuestionsMap ex_questions) 0 = Some (ex_questions ! 0)
   \<and> state ex_world = Some ex_state \<and> \<not> isTransitioning ex_world
   \<and> nextQuestion (answers (ex_questions ! 1) ! nat 0) = Null
   \<and> nextQuestion (answers (ex_questions ! 1) ! nat 1) = EmptyString
   \<and> nextQuestion (answers (ex_questions ! 1) ! nat 2) = Undefined
   \<and> nextQuestion (answers (ex_questions ! 0) ! nat 0) = QuestionNo 1
   \<and> handleAnswerClick 1 0 ex_world =
       Inr (ex_world\<lparr>state := Some \<lparr>screen = Loading, currentQuestionId = 1,
                                    ratings = [(''a'', 8), (''b'', 6), (''c'', 9)]\<rparr>,
                     isTransitioning := True,
                     page := (page ex_world)\<lparr>shown := {Loading}\<rparr>,
                     timers := [ShowResultsTimer]\<rparr>)
   \<and> handleAnswerClick 1 1 ex_world =
       Inr (ex_world\<lparr>state := Some \<lparr>screen = Loading, currentQuestionId = 1,
                                    ratings = [(''a'', 5), (''b'', 5), (''c'', 9), (''d'', 4)]\<rparr>,
                     isTransitioning := True,
                     page := (page ex_world)\<lparr>shown := {Loading}\<rparr>,
                     timers := [ShowResultsTimer]\<rparr>)
   \<and> handleAnswerClick 1 2 ex_world =
       Inr (ex_world\<lparr>state := Some \<lparr>screen = Loading, currentQuestionId = 1,
                                    ratings = [(''a'', 5), (''b'', 5), (''c'', 9)]\<rparr>,
                     isTransitioning := True,
                     page := (page ex_world)\<lparr>shown := {Loading}\<rparr>,
                     timers := [ShowResultsTimer]\<rparr>)
   \<and> handleAnswerClick 0 0 ex_world =
       Inr (ex_world\<lparr>state := Some \<lparr>screen = Quiz, currentQuestionId = 1,
                                    ratings = [(''a'', 8), (''b'', 6), (''c'', 9)]\<rparr>,
                     isTransitioning := True,
                     page := (page ex_world)\<lparr>quiz_is_fading := True\<rparr>,
                     quizContentListeners := [onFadeOutEnd (RenderNextFn 1)]\<rparr>)"
proof -
  note f = ex_world_fields
  have a: "handleAnswerClick 1 0 ex_world =
       Inr (ex_world\<lparr>state := Some \<lparr>screen = Loading, currentQuestionId = 1,
                                    ratings = [(''a'', 8), (''b'', 6), (''c'', 9)]\<rparr>,
                     isTransitioning := True,
                     page := (page ex_world)\<lparr>shown := {Loading}\<rparr>,
                     timers := [ShowResultsTimer]\<rparr>)"
    using handleAnswerClick_finishes_or_continues [OF f(1) ex_index(2) _ ex_answers(1) f(2) f(4)]
    by (simp add: ex_questions_def ex_state_def ex_world_def ex_page_def increase_def get0_def
        js_set_def js_add_exact ex_keys)
  have b: "handleAnswerClick 1 1 ex_world =
       Inr (ex_world\<lparr>state := Some \<lparr>screen = Loading, currentQuestionId = 1,
                                    ratings = [(''a'', 5), (''b'', 5), (''c'', 9), (''d'', 4)]\<rparr>,
                     isTransitioning := True,
                     page := (page ex_world)\<lparr>shown := {Loading}\<rparr>,
                     timers := [ShowResultsTimer]\<rparr>)"
    using handleAnswerClick_finishes_or_continues [OF f(1) ex_index(2) _ ex_answers(2) f(2) f(4)]
    by (simp add: ex_questions_def ex_state_def ex_world_def ex_page_def increase_def get0_def
        js_set_def js_add_exact ex_keys)
  have c: "handleAnswerClick 1 2 ex_world =
       Inr (ex_world\<lparr>state := Some \<lparr>screen = Loading, currentQuestionId = 1,
                                    ratings = [(''a'', 5), (''b'', 5), (''c'', 9)]\<rparr>,
                     isTransitioning := True,
                     page := (page ex_world)\<lparr>shown := {Loading}\<rparr>,
                     timers := [ShowResultsTimer]\<rparr>)"
    using handleAnswerClick_finishes_or_continues [OF f(1) ex_index(2) _ ex_answers(3) f(2) f(4)]
    by (simp add: ex_questions_def ex_state_def ex_world_def ex_page_def increase_def get0_def
        js_set_def js_add_exact ex_keys)
  have d: "handleAnswerClick 0 0 ex_world =
       Inr (ex_world\<lparr>state := Some \<lparr>screen = Quiz, currentQuestionId = 1,
                                    ratings = [(''a'', 8), (''b'', 6), (''c'', 9)]\<rparr>,
                     isTransitioning := True,
                     page := (page ex_world)\<lparr>quiz_is_fading := True\<rparr>,
                     quizContentListeners := [onFadeOutEnd (RenderNextFn 1)]\<rparr>)"
    using handleAnswerClick_finishes_or_continues [OF f(1) ex_index(1) _ ex_answers(4) f(2) f(4)]
    by (simp add: ex_questions_def ex_state_def ex_world_def ex_page_def increase_def get0_def
        js_set_def js_add_exact ex_keys)
  show ?thesis
    using a b c d f(1,2,4) ex_index(1,2) ex_answers(5-8) by blast
qed

section \<open>Questions and answers that do not exist\<close>

text \<open>
  C4. \<open>handleAnswerClick\<close> signals no error. With a question id that the index does not
  hold, or an answer position outside the answers of the question found, it returns
  normally, and the page it returns is the page it was given: ratings, current question,
  screen and everything else are untouched.
\<close>

theorem handleAnswerClick_not_found_unchanged:
  assumes "questionsById w = Some m"
  shows "(map_of m qid = None \<longrightarrow> handleAnswerClick qid ai w = Inr w)
    \<and> (\<forall>q. map_of m qid = Some q \<and> \<not> (0 \<le> ai \<and> nat ai < length (answers q)) \<longrightarrow>
           handleAnswerClick qid ai w = Inr w)"
  using assms by (auto simp: handleAnswerClick_def getQuestion_def)

theorem handleAnswerClick_not_found_unchanged_witness:
  "questionsById ex_world = Some (buildQuestionsMap ex_questions)
   \<and> map_of (buildQuestionsMap ex_questions) 7 = None
   \<and> map_of (buildQuestionsMap ex_questions) 1 = Some (ex_questions ! 1)
   \<and> \<not> (0 \<le> (5::int) \<and> nat 5 < length (answers (ex_questions ! 1)))
   \<and> handleAnswerClick 7 0 ex_world = Inr ex_world
   \<and> handleAnswerClick 1 5 ex_world = Inr ex_world"
proof -
  have n: "\<not> (0 \<le> (5::int) \<and> nat 5 < length (answers (ex_questions ! 1)))"
    by (simp add: ex_questions_def)
  have a: "handleAnswerClick 7 0 ex_world = Inr ex_world"
    using handleAnswerClick_not_found_unchanged [OF ex_world_fields(1), of 7 0] ex_index(3)
    by blast
  have b: "handleAnswerClick 1 5 ex_world = Inr ex_world"
    using handleAnswerClick_not_found_unchanged [OF ex_world_fields(1), of 1 5] ex_index(2) n
    by blast
  from a b n ex_world_fields(1) ex_index(2,3) show ?thesis by blast
qed

text \<open>
  On the example page, question 7 does not exist and question 1 has no answer at position
  5 or -1: each call returns normally (\<open>Inr\<close>), not with an error.
\<close>

theorem handleAnswerClick_not_found_counterexample:
  "handleAnswerClick 7 0 ex_world = Inr ex_world
   \<and> handleAnswerClick 1 5 ex_world = Inr ex_world
   \<and> handleAnswerClick 1 (- 1) ex_world = Inr ex_world"
  by (simp add: handleAnswerClick_def getQuestion_def ex_world_fields buildQuestionsMap_def
      ex_questions_def)

section \<open>Everything an answer click changes\<close>

lemma renderQuestionScreen_state:
  assumes "questionsById w = Some m" and "state w = Some s"
  shows "\<exists>w'. renderQuestionScreen n w = Inr w'
           \<and> state w' = Some (if map_of m n = None then s else s\<lparr>currentQuestionId := n\<rparr>)
           \<and> isTransitioning w' = isTransitioning w
           \<and> stageListeners w' = stageListeners w
           \<and> quizContentListeners w' = quizContentListeners w
           \<and> timers w' = timers w"
  using assms by (cases "map_of m n") (simp_all add: renderQuestionScreen_def getQuestion_def)

text \<open>
  C7. A call of \<open>handleAnswerClick\<close> that finds its question and answer, with no transition
  in flight, changes more than the ratings. It leaves the data, the question index, the
  alerts and \<^verbatim>\<open>state.currentQuestionId\<close> as they were and updates the ratings, but it also
  sets \<^verbatim>\<open>isTransitioning\<close>, and then either (for an ending answer) shows the loading screen
  and starts the results timer, or (for a next question \<open>n\<close>) marks the fading element and
  registers the fade-out listener. The current question is advanced later, when that
  listener runs: it sets \<^verbatim>\<open>currentQuestionId\<close> to \<open>n\<close> if question \<open>n\<close> exists, and keeps the
  ratings.
\<close>

theorem handleAnswerClick_effects:
  assumes "questionsById w = Some m" and "map_of m qid = Some q"
    and "0 \<le> ai" and "nat ai < length (answers q)" and "state w = Some s"
    and "\<not> isTransitioning w"
  shows "\<exists>w' s'. handleAnswerClick qid ai w = Inr w' \<and> state w' = Some s'
    \<and> ratings s' = ratings (case ratingIncrease (answers q ! nat ai) of
                               None \<Rightarrow> s | Some es \<Rightarrow> fold increase es s)
    \<and> currentQuestionId s' = currentQuestionId s
    \<and> DATA w' = DATA w \<and> questionsById w' = questionsById w \<and> alerts w' = alerts w
    \<and> isTransitioning w'
    \<and> (nextQuestion (answers q ! nat ai) \<in> {Undefined, Null, EmptyString} \<longrightarrow>
          screen s' = Loading
          \<and> page w' = (page w)\<lparr>shown := {Loading}, body_is_results := False\<rparr>
          \<and> timers w' = timers w @ [ShowResultsTimer]
          \<and> stageListeners w' = stageListeners w
          \<and> quizContentListeners w' = quizContentListeners w)
    \<and> (\<forall>n. nextQuestion (answers q ! nat ai) = QuestionNo n \<longrightarrow>
          screen s' = screen s \<and> timers w' = timers w
          \<and> (screen s = Quiz \<longrightarrow>
                page w' = (page w)\<lparr>quiz_is_fading := True\<rparr>
                \<and> stageListeners w' = stageListeners w
                \<and> quizContentListeners w' =
                    quizContentListeners w @ [onFadeOutEnd (RenderNextFn n)]
                \<and> (\<exists>w'' s''.
                      run_listener (onFadeOutEnd (RenderNextFn n)) ''opacity'' w' = Inr w''
                      \<and> state w'' = Some s'' \<and> ratings s'' = ratings s'
                      \<and> currentQuestionId s'' =
                          (if map_of m n = None then currentQuestionId s else n)))
          \<and> (screen s \<noteq> Quiz \<longrightarrow>
                page w' = (page w)\<lparr>stage_is_out := True\<rparr>
                \<and> stageListeners w' = stageListeners w @ [onOutEnd (RenderNextFn n)]
                \<and> quizContentListeners w' = quizContentListeners w
                \<and> (\<exists>w'' s''.
                      run_listener (onOutEnd (RenderNextFn n)) ''opacity'' w' = Inr w''
                      \<and> state w'' = Some s'' \<and> ratings s'' = ratings s'
                      \<and> currentQuestionId s'' =
                          (if map_of m n = None then currentQuestionId s else n))))"
proof -
  let ?s1 = "case ratingIncrease (answers q ! nat ai) of None \<Rightarrow> s | Some es \<Rightarrow> fold increase es s"
  have s1: "screen ?s1 = screen s" "currentQuestionId ?s1 = currentQuestionId s"
    by (cases "ratingIncrease (answers q ! nat ai)"; simp)+
  show ?thesis
  proof (cases "nextQuestion (answers q ! nat ai)")
    case (QuestionNo n)
    note step = handleAnswerClick_continue [OF assms(1-5) QuestionNo assms(6)]
    show ?thesis
    proof (cases "screen s = Quiz")
      case True
      let ?w' = "w\<lparr>state := Some ?s1, isTransitioning := True,
                   page := (page w)\<lparr>quiz_is_fading := True\<rparr>,
                   quizContentListeners := quizContentListeners w @ [onFadeOutEnd (RenderNextFn n)]\<rparr>"
      have eq: "handleAnswerClick qid ai w = Inr ?w'" using step True by simp
      let ?w0 = "?w'\<lparr>quizContentListeners :=
                      remove1 (onFadeOutEnd (RenderNextFn n)) (quizContentListeners ?w')\<rparr>"
      have "questionsById ?w0 = Some m" "state ?w0 = Some ?s1" using assms(1) by simp_all
      from renderQuestionScreen_state [OF this, of n]
      obtain w1 where w1: "renderQuestionScreen n ?w0 = Inr w1"
        "state w1 = Some (if map_of m n = None then ?s1 else ?s1\<lparr>currentQuestionId := n\<rparr>)"
        by blast
      have later: "\<exists>w'' s''.
          run_listener (onFadeOutEnd (RenderNextFn n)) ''opacity'' ?w' = Inr w''
          \<and> state w'' = Some s'' \<and> ratings s'' = ratings ?s1
          \<and> currentQuestionId s'' = (if map_of m n = None then currentQuestionId s else n)"
        using w1 s1 by (cases "map_of m n") auto
      show ?thesis
        using eq later True QuestionNo s1 by (intro exI [of _ ?w'] exI [of _ ?s1]) simp
    next
      case False
      let ?w' = "w\<lparr>state := Some ?s1, isTransitioning := True,
                   page := (page w)\<lparr>stage_is_out := True\<rparr>,
                   stageListeners := stageListeners w @ [onOutEnd (RenderNextFn n)]\<rparr>"
      have eq: "handleAnswerClick qid ai w = Inr ?w'" using step False by simp
      let ?w0 = "?w'\<lparr>stageListeners :=
                      remove1 (onOutEnd (RenderNextFn n)) (stageListeners ?w')\<rparr>"
      have "questionsById ?w0 = Some m" "state ?w0 = Some ?s1" using assms(1) by simp_all
      from renderQuestionScreen_state [OF this, of n]
      obtain w1 where w1: "renderQuestionScreen n ?w0 = Inr w1"
        "state w1 = Some (if map_of m n = None then ?s1 else ?s1\<lparr>currentQuestionId := n\<rparr>)"
        by blast
      have later: "\<exists>w'' s''.
          run_listener (onOutEnd (RenderNextFn n)) ''opacity'' ?w' = Inr w''
          \<and> state w'' = Some s'' \<and> ratings s'' = ratings ?s1
          \<and> currentQuestionId s'' = (if map_of m n = None then currentQuestionId s else n)"
        using w1 s1 by (cases "map_of m n") auto
      show ?thesis
        using eq later False QuestionNo s1 by (intro exI [of _ ?w'] exI [of _ ?s1]) simp
    qed
  next
    case Undefined
    then have "nextQuestion (answers q ! nat ai) \<in> {Undefined, Null, EmptyString}" by simp
    from handleAnswerClick_terminal [OF assms(1-5) this assms(6)] Undefined s1
    show ?thesis by simp
  next
    case Null
    then have "nextQuestion (answers q ! nat ai) \<in> {Undefined, Null, EmptyString}" by simp
    from handleAnswerClick_terminal [OF assms(1-5) this assms(6)] Null s1
    show ?thesis by simp
  next
    case EmptyString
    then have "nextQuestion (answers q ! nat ai) \<in> {Undefined, Null, EmptyString}" by simp
    from handleAnswerClick_terminal [OF assms(1-5) this assms(6)] EmptyString s1
    show ?thesis by simp
  qed
qed


theorem handleAnswerClick_effects_witness:
  "questionsById ex_world0 = Some (buildQuestionsMap ex_questions)
   \<and> map_of (buildQuestionsMap ex_questions) 0 = Some (ex_questions ! 0)
   \<and> nat 0 < length (answers (ex_questions ! 0))
   \<and> state ex_world0 = Some \<lparr>screen = Quiz, currentQuestionId = 0,
                                ratings = [(''a'', 0), (''b'', 0), (''c'', 0)]\<rparr>
   \<and> \<not> isTransitioning ex_world0
   \<and> nextQuestion (answers (ex_questions ! 0) ! nat 0) = QuestionNo 1
   \<and> (\<exists>w' s'. handleAnswerClick 0 0 ex_world0 = Inr w' \<and> state w' = Some s'
         \<and> currentQuestionId s' = 0 \<and> isTransitioning w' \<and> timers w' = []
         \<and> quizContentListeners w' = [onFadeOutEnd (RenderNextFn 1)]
         \<and> (\<exists>w'' s''. run_listener (onFadeOutEnd (RenderNextFn 1)) ''opacity'' w' = Inr w''
               \<and> state w'' = Some s'' \<and> currentQuestionId s'' = 1))"
proof -
  let ?s = "\<lparr>screen = Quiz, currentQuestionId = 0, ratings = [(''a'', 0), (''b'', 0), (''c'', 0)]\<rparr>"
  have f: "questionsById ex_world0 = Some (buildQuestionsMap ex_questions)"
    "state ex_world0 = Some ?s" "\<not> isTransitioning ex_world0"
    "timers ex_world0 = []" "quizContentListeners ex_world0 = []"
    by (simp_all add: ex_world0_def ex_world_def)
  have n: "map_of (buildQuestionsMap ex_questions) 1 \<noteq> None"
    using ex_index(2) by simp
  from handleAnswerClick_effects [OF f(1) ex_index(1) _ ex_answers(4) f(2) f(3)]
  obtain w' s' where 1: "handleAnswerClick 0 0 ex_world0 = Inr w'" "state w' = Some s'"
    "currentQuestionId s' = currentQuestionId ?s" "isTransitioning w'"
    and 2: "\<forall>n. nextQuestion (answers (ex_questions ! 0) ! nat 0) = QuestionNo n \<longrightarrow>
          screen s' = screen ?s \<and> timers w' = timers ex_world0
          \<and> (screen ?s = Quiz \<longrightarrow>
                page w' = (page ex_world0)\<lparr>quiz_is_fading := True\<rparr>
                \<and> stageListeners w' = stageListeners ex_world0
                \<and> quizContentListeners w' =
                    quizContentListeners ex_world0 @ [onFadeOutEnd (RenderNextFn n)]
                \<and> (\<exists>w'' s''.
                      run_listener (onFadeOutEnd (RenderNextFn n)) ''opacity'' w' = Inr w''
                      \<and> state w'' = Some s'' \<and> ratings s'' = ratings s'
                      \<and> currentQuestionId s'' =
                          (if map_of (buildQuestionsMap ex_questions) n = None
                           then currentQuestionId ?s else n)))"
    by auto
  from 2 ex_answers(8) have 3: "timers w' = timers ex_world0"
    "quizContentListeners w' = quizContentListeners ex_world0 @ [onFadeOutEnd (RenderNextFn 1)]"
    "\<exists>w'' s''. run_listener (onFadeOutEnd (RenderNextFn 1)) ''opacity'' w' = Inr w''
        \<and> state w'' = Some s''
        \<and> currentQuestionId s'' =
              (if map_of (buildQuestionsMap ex_questions) 1 = None
               then currentQuestionId ?s else 1)"
    by auto
  have "\<exists>w' s'. handleAnswerClick 0 0 ex_world0 = Inr w' \<and> state w' = Some s'
         \<and> currentQuestionId s' = 0 \<and> isTransitioning w' \<and> timers w' = []
         \<and> quizContentListeners w' = [onFadeOutEnd (RenderNextFn 1)]
         \<and> (\<exists>w'' s''. run_listener (onFadeOutEnd (RenderNextFn 1)) ''opacity'' w' = Inr w''
               \<and> state w'' = Some s'' \<and> currentQuestionId s'' = 1)"
    using 1 3 n f(4,5) by (intro exI [of _ w'] exI [of _ s']) simp
  then show ?thesis
    using f(1,2,3) ex_index(1) ex_answers(4,8) by blast
qed

text \<open>
  On the example page the first answer of question 1 ends the quiz: the call starts a
  timer, shows another screen and sets \<^verbatim>\<open>isTransitioning\<close>, besides adding to the ratings.
\<close>

theorem handleAnswerClick_confined_counterexample:
  "timers ex_world = [] \<and> \<not> isTransitioning ex_world \<and> shown (page ex_world) = {Quiz}
   \<and> handleAnswerClick 1 0 ex_world =
       Inr (ex_world\<lparr>state := Some \<lparr>screen = Loading, currentQuestionId = 1,
                                    ratings = [(''a'', 8), (''b'', 6), (''c'', 9)]\<rparr>,
                     isTransitioning := True,
                     page := (page ex_world)\<lparr>shown := {Loading}\<rparr>,
                     timers := [ShowResultsTimer]\<rparr>)"
  by (simp add: handleAnswerClick_def getQuestion_def buildQuestionsMap_def
      applyRatingIncrease_def showOnly_def ex_world_def ex_state_def ex_page_def
      ex_questions_def increase_def get0_def js_set_def js_add_exact)

section \<open>The transition guard\<close>

lemma run_updateFn_loaded:
  assumes "loaded w"
  shows "\<exists>w'. run_updateFn f w = Inr w' \<and> loaded w'
           \<and> isTransitioning w' = isTransitioning w
           \<and> stageListeners w' = stageListeners w
           \<and> quizContentListeners w' = quizContentListeners w
           \<and> timers w' = timers w"
  using assms
  by (cases f)
     (auto simp: loaded_def initialState_def showOnly_def renderQuestionScreen_def
        getQuestion_def split: option.splits)

lemma run_updateFn_guard:
  "run_updateFn f w = Inr w' \<Longrightarrow> isTransitioning w' = isTransitioning w"
  by (cases f)
     (auto simp: initialState_def showOnly_def renderQuestionScreen_def
        getQuestion_def split: option.splits if_splits sum.splits)

lemma run_listener_guard:
  "run_listener l p w = Inr w' \<Longrightarrow> isTransitioning w \<Longrightarrow> \<not> isTransitioning w' \<Longrightarrow>
   p = ''opacity'' \<and> (l = onInEnd \<or> l = onFadeInEnd)"
  by (cases l) (auto split: if_splits sum.splits dest: run_updateFn_guard)

lemma run_listeners_guard:
  "run_listeners el ls p w = Inr w' \<Longrightarrow> isTransitioning w \<Longrightarrow> \<not> isTransitioning w' \<Longrightarrow>
   p = ''opacity''"
proof (induction ls arbitrary: w)
  case Nil
  then show ?case by simp
next
  case (Cons l ls)
  show ?case
  proof (cases "l \<in> set (listeners_of el w)")
    case False
    with Cons show ?thesis by simp
  next
    case True
    with Cons.prems(1) obtain w1 where w1: "run_listener l p w = Inr w1"
      "run_listeners el ls p w1 = Inr w'"
      by (auto split: sum.splits)
    show ?thesis
    proof (cases "isTransitioning w1")
      case True
      from Cons.IH [OF w1(2) True Cons.prems(3)] show ?thesis .
    next
      case False
      from run_listener_guard [OF w1(1) Cons.prems(2) False] show ?thesis by simp
    qed
  qed
qed

lemma dispatch_clears_guard:
  assumes "dispatch e w = Inr w'" and "isTransitioning w" and "\<not> isTransitioning w'"
  shows "(e = Timeout \<and> timers w \<noteq> []) \<or> (\<exists>el. e = TransitionEnd el ''opacity'')"
proof (cases e)
  case StartClick
  with assms show ?thesis by (simp add: startQuiz_def transitionTo_def)
next
  case RestartClick
  with assms show ?thesis by (simp add: restartQuiz_def transitionTo_def)
next
  case HomeClick
  with assms show ?thesis by (simp add: goToStartScreen_def)
next
  case (StageClick t)
  with assms show ?thesis by (simp add: stageClick_def)
next
  case (TransitionEnd el p)
  have "p = ''opacity''"
  proof (cases el)
    case StageEl
    with assms TransitionEnd show ?thesis
      by (auto simp: transitionend_def dest: run_listeners_guard)
  next
    case QuizContentEl
    with assms(1) TransitionEnd obtain w1 where
      w1: "run_listeners QuizContentEl (quizContentListeners w) p w = Inr w1"
        "run_listeners StageEl (stageListeners w1) p w1 = Inr w'"
      by (auto simp: transitionend_def split: sum.splits)
    show ?thesis
    proof (cases "isTransitioning w1")
      case True
      from run_listeners_guard [OF w1(2) True assms(3)] show ?thesis .
    next
      case False
      from run_listeners_guard [OF w1(1) assms(2) False] show ?thesis .
    qed
  qed
  with TransitionEnd show ?thesis by simp
next
  case Timeout
  with assms show ?thesis by (cases "timers w") auto
qed


lemma transitionTo_inv:
  "loaded w \<Longrightarrow> one_transition w \<Longrightarrow>
   loaded (transitionTo f w) \<and> one_transition (transitionTo f w)"
  by (auto simp: transitionTo_def one_transition_def loaded_def)

lemma handleAnswerClick_inv:
  assumes "loaded w" and "one_transition w" and "\<not> isTransitioning w"
  shows "\<exists>w'. handleAnswerClick qid ai w = Inr w' \<and> loaded w' \<and> one_transition w'"
proof -
  from assms(1) obtain d m s where l: "DATA w = Some d" "questionsById w = Some m" "state w = Some s"
    by (auto simp: loaded_def)
  from assms(2,3) have idle: "stageListeners w = []" "quizContentListeners w = []" "timers w = []"
    by (simp_all add: one_transition_def)
  show ?thesis
  proof (cases "map_of m qid")
    case None
    with l assms show ?thesis by (simp add: handleAnswerClick_def getQuestion_def)
  next
    case (Some q)
    show ?thesis
    proof (cases "0 \<le> ai \<and> nat ai < length (answers q)")
      case False
      with Some l assms show ?thesis by (simp add: handleAnswerClick_def getQuestion_def)
    next
      case True
      then have r: "0 \<le> ai" "nat ai < length (answers q)" by simp_all
      show ?thesis
      proof (cases "nextQuestion (answers q ! nat ai)")
        case (QuestionNo n)
        from handleAnswerClick_continue [OF l(2) Some r l(3) QuestionNo assms(3)] l idle
        show ?thesis by (simp add: loaded_def one_transition_def)
      next
        case Undefined
        then have "nextQuestion (answers q ! nat ai) \<in> {Undefined, Null, EmptyString}" by simp
        from handleAnswerClick_terminal [OF l(2) Some r l(3) this assms(3)] l idle
        show ?thesis by (simp add: loaded_def one_transition_def)
      next
        case Null
        then have "nextQuestion (answers q ! nat ai) \<in> {Undefined, Null, EmptyString}" by simp
        from handleAnswerClick_terminal [OF l(2) Some r l(3) this assms(3)] l idle
        show ?thesis by (simp add: loaded_def one_transition_def)
      next
        case EmptyString
        then have "nextQuestion (answers q ! nat ai) \<in> {Undefined, Null, EmptyString}" by simp
        from handleAnswerClick_terminal [OF l(2) Some r l(3) this assms(3)] l idle
        show ?thesis by (simp add: loaded_def one_transition_def)
      qed
    qed
  qed
qed

lemma stageClick_inv:
  assumes "loaded w" and "one_transition w"
  shows "\<exists>w'. stageClick t w = Inr w' \<and> loaded w' \<and> one_transition w'"
proof (cases "isTransitioning w")
  case True
  with assms show ?thesis by (simp add: stageClick_def)
next
  case False
  show ?thesis
  proof (cases t)
    case (AnswerBtn qid ai)
    with False handleAnswerClick_inv [OF assms False, of qid ai] show ?thesis
      by (simp add: stageClick_def)
  next
    case (ShopBtn sid)
    with False assms show ?thesis
      by (simp add: stageClick_def loaded_def one_transition_def)
  qed (use False assms in \<open>simp_all add: stageClick_def\<close>)
qed

lemma run_listener_loaded:
  assumes "loaded w"
  shows "\<exists>w'. run_listener l ''opacity'' w = Inr w' \<and> loaded w' \<and> timers w' = timers w
    \<and> (case l of
          onOutEnd f \<Rightarrow>
            isTransitioning w' = isTransitioning w
            \<and> stageListeners w' = remove1 l (stageListeners w) @ [onInEnd]
            \<and> quizContentListeners w' = quizContentListeners w
        | onInEnd \<Rightarrow>
            \<not> isTransitioning w'
            \<and> stageListeners w' = remove1 l (stageListeners w)
            \<and> quizContentListeners w' = quizContentListeners w
        | onFadeOutEnd f \<Rightarrow>
            isTransitioning w' = isTransitioning w
            \<and> stageListeners w' = stageListeners w
            \<and> quizContentListeners w' = remove1 l (quizContentListeners w) @ [onFadeInEnd]
        | onFadeInEnd \<Rightarrow>
            \<not> isTransitioning w'
            \<and> stageListeners w' = stageListeners w
            \<and> quizContentListeners w' = remove1 l (quizContentListeners w))"
proof (cases l)
  case (onOutEnd f)
  let ?w0 = "w\<lparr>stageListeners := remove1 (onOutEnd f) (stageListeners w)\<rparr>"
  have "loaded ?w0" using assms by (simp add: loaded_def)
  from run_updateFn_loaded [OF this, of f] obtain w1 where
    "run_updateFn f ?w0 = Inr w1" "loaded w1" "isTransitioning w1 = isTransitioning ?w0"
    "stageListeners w1 = stageListeners ?w0" "quizContentListeners w1 = quizContentListeners ?w0"
    "timers w1 = timers ?w0"
    by blast
  with onOutEnd show ?thesis by (simp add: loaded_def)
next
  case onInEnd
  with assms show ?thesis by (simp add: loaded_def)
next
  case (onFadeOutEnd f)
  let ?w0 = "w\<lparr>quizContentListeners := remove1 (onFadeOutEnd f) (quizContentListeners w)\<rparr>"
  have "loaded ?w0" using assms by (simp add: loaded_def)
  from run_updateFn_loaded [OF this, of f] obtain w1 where
    "run_updateFn f ?w0 = Inr w1" "loaded w1" "isTransitioning w1 = isTransitioning ?w0"
    "stageListeners w1 = stageListeners ?w0" "quizContentListeners w1 = quizContentListeners ?w0"
    "timers w1 = timers ?w0"
    by blast
  with onFadeOutEnd show ?thesis by (simp add: loaded_def)
next
  case onFadeInEnd
  with assms show ?thesis by (simp add: loaded_def)
qed

lemma run_listener_other_property:
  "p \<noteq> ''opacity'' \<Longrightarrow> run_listener l p w = Inr w"
  by (cases l) simp_all

lemma run_listeners_other_property:
  "p \<noteq> ''opacity'' \<Longrightarrow> run_listeners el ls p w = Inr w"
  by (induction ls) (simp_all add: run_listener_other_property)

lemma run_listeners_single:
  "run_listeners el [l] p w =
     (if l \<in> set (listeners_of el w) then run_listener l p w else Inr w)"
  by (simp split: sum.split)

lemma transitionend_inv:
  assumes "loaded w" and "one_transition w"
  shows "\<exists>w'. transitionend el p w = Inr w' \<and> loaded w' \<and> one_transition w'"
proof (cases "p = ''opacity''")
  case False
  with assms show ?thesis
    by (cases el) (simp_all add: transitionend_def run_listeners_other_property)
next
  case True
  consider (idle) "stageListeners w = []" "quizContentListeners w = []"
    | (out) f where "isTransitioning w" "stageListeners w = [onOutEnd f]"
        "quizContentListeners w = []" "timers w = []"
    | (inn) "isTransitioning w" "stageListeners w = [onInEnd]"
        "quizContentListeners w = []" "timers w = []"
    | (fout) f where "isTransitioning w" "stageListeners w = []"
        "quizContentListeners w = [onFadeOutEnd f]" "timers w = []"
    | (finn) "isTransitioning w" "stageListeners w = []"
        "quizContentListeners w = [onFadeInEnd]" "timers w = []"
    using assms(2) by (auto simp: one_transition_def split: if_splits)
  then show ?thesis
  proof cases
    case idle
    with assms show ?thesis by (cases el) (simp_all add: transitionend_def)
  next
    case out
    from run_listener_loaded [OF assms(1), of "onOutEnd f"] out
    obtain w' where w': "run_listener (onOutEnd f) ''opacity'' w = Inr w'" "loaded w'"
      "one_transition w'"
      by (auto simp: one_transition_def)
    with out True show ?thesis
      by (cases el) (simp_all add: transitionend_def listeners_of_def del: run_listener.simps)
  next
    case inn
    from run_listener_loaded [OF assms(1), of onInEnd] inn
    obtain w' where w': "run_listener onInEnd ''opacity'' w = Inr w'" "loaded w'"
      "one_transition w'"
      by (auto simp: one_transition_def)
    with inn True show ?thesis
      by (cases el) (simp_all add: transitionend_def listeners_of_def del: run_listener.simps)
  next
    case fout
    from run_listener_loaded [OF assms(1), of "onFadeOutEnd f"] fout
    obtain w' where w': "run_listener (onFadeOutEnd f) ''opacity'' w = Inr w'" "loaded w'"
      "one_transition w'" "stageListeners w' = []"
      by (auto simp: one_transition_def)
    with fout True assms show ?thesis
      by (cases el) (simp_all add: transitionend_def listeners_of_def del: run_listener.simps)
  next
    case finn
    from run_listener_loaded [OF assms(1), of onFadeInEnd] finn
    obtain w' where w': "run_listener onFadeInEnd ''opacity'' w = Inr w'" "loaded w'"
      "one_transition w'" "stageListeners w' = []"
      by (auto simp: one_transition_def)
    with finn True assms show ?thesis
      by (cases el) (simp_all add: transitionend_def listeners_of_def del: run_listener.simps)
  qed
qed

lemma showResultsTimeout_inv:
  assumes "loaded w" and "stageListeners w = []" and "quizContentListeners w = []"
    and "timers w = []"
  shows "\<exists>w'. showResultsTimeout w = Inr w' \<and> loaded w' \<and> one_transition w'"
  using assms
  by (auto simp: showResultsTimeout_def showOnly_def renderResultsScreen_def loaded_def
      one_transition_def)

lemma dispatch_inv:
  assumes "loaded w" and "one_transition w"
  shows "\<exists>w'. dispatch e w = Inr w' \<and> loaded w' \<and> one_transition w'"
proof (cases e)
  case StartClick
  with transitionTo_inv [OF assms] show ?thesis by (simp add: startQuiz_def)
next
  case RestartClick
  with transitionTo_inv [OF assms] show ?thesis by (simp add: restartQuiz_def)
next
  case HomeClick
  with transitionTo_inv [OF assms] assms show ?thesis by (simp add: goToStartScreen_def)
next
  case (StageClick t)
  with stageClick_inv [OF assms] show ?thesis by simp
next
  case (TransitionEnd el p)
  with transitionend_inv [OF assms] show ?thesis by simp
next
  case Timeout
  show ?thesis
  proof (cases "timers w")
    case Nil
    with Timeout assms show ?thesis by simp
  next
    case (Cons t ts)
    with assms(2) have shape: "ts = []" "stageListeners w = []" "quizContentListeners w = []"
      by (auto simp: one_transition_def split: if_splits)
    have "loaded (w\<lparr>timers := []\<rparr>)" using assms(1) by (simp add: loaded_def)
    from showResultsTimeout_inv [OF this] shape
    obtain w' where "showResultsTimeout (w\<lparr>timers := []\<rparr>) = Inr w'" "loaded w'" "one_transition w'"
      by auto
    with Timeout Cons shape show ?thesis by (cases t) simp
  qed
qed


lemma run_events_inv:
  "loaded w \<Longrightarrow> one_transition w \<Longrightarrow>
   \<exists>w'. run_events es w = Inr w' \<and> loaded w' \<and> one_transition w'"
proof (induction es arbitrary: w)
  case Nil
  then show ?case by simp
next
  case (Cons e es)
  from dispatch_inv [OF Cons.prems, of e] obtain w1 where
    w1: "dispatch e w = Inr w1" "loaded w1" "one_transition w1"
    by blast
  from Cons.IH [OF w1(2,3)] w1(1) show ?case by simp
qed

lemma init_inv:
  "\<exists>w0. init (Loaded d) (boot p) = Inr w0 \<and> loaded w0 \<and> one_transition w0"
  by (simp add: init_def boot_def initialState_def showOnly_def loaded_def one_transition_def)

text \<open>
  C8. While \<^verbatim>\<open>isTransitioning\<close> is set, a click in the stage (on an answer or anything
  else) returns the page unchanged, and so do \<open>transitionTo\<close>, the start, restart and home
  actions and \<open>fadeQuizContentAndUpdate\<close>: no second transition starts. A transition sets
  the flag when it starts. An event that finds the flag set and leaves it cleared is the
  expiry of the results timer or a \<^verbatim>\<open>transitionend\<close> for \<^verbatim>\<open>opacity\<close>, and the listener that
  clears it is one of the two fade-in listeners. On a loaded page with
  at most one transition in flight every event is handled without an error and leaves
  such a page; the page that \<open>init\<close> leaves is one, and so is every page reached from
  it by events.
\<close>

theorem transition_guard:
  "(isTransitioning w \<longrightarrow>
      stageClick t w = Inr w \<and> transitionTo f w = w \<and> startQuiz w = w
      \<and> restartQuiz w = w \<and> goToStartScreen w = w
      \<and> (state w \<noteq> None \<longrightarrow> fadeQuizContentAndUpdate f w = Inr w))
   \<and> (\<not> isTransitioning w \<longrightarrow>
        isTransitioning (transitionTo f w)
        \<and> (state w \<noteq> None \<longrightarrow>
              (\<exists>w1. fadeQuizContentAndUpdate f w = Inr w1 \<and> isTransitioning w1)))
   \<and> (isTransitioning w \<and> dispatch e w = Inr w' \<and> \<not> isTransitioning w' \<longrightarrow>
        (e = Timeout \<and> timers w \<noteq> []) \<or> (\<exists>el. e = TransitionEnd el ''opacity''))
   \<and> (\<forall>l pn. isTransitioning w \<and> run_listener l pn w = Inr w' \<and> \<not> isTransitioning w' \<longrightarrow>
        pn = ''opacity'' \<and> (l = onInEnd \<or> l = onFadeInEnd))
   \<and> (loaded w \<and> one_transition w \<longrightarrow>
        (\<exists>w1. dispatch e w = Inr w1 \<and> loaded w1 \<and> one_transition w1))
   \<and> (\<exists>w0. init (Loaded d) (boot p) = Inr w0 \<and> loaded w0 \<and> one_transition w0
         \<and> (\<forall>es. \<exists>w1. run_events es w0 = Inr w1 \<and> loaded w1 \<and> one_transition w1))"
proof -
  have a: "isTransitioning w \<longrightarrow>
      stageClick t w = Inr w \<and> transitionTo f w = w \<and> startQuiz w = w
      \<and> restartQuiz w = w \<and> goToStartScreen w = w
      \<and> (state w \<noteq> None \<longrightarrow> fadeQuizContentAndUpdate f w = Inr w)"
    by (auto simp: stageClick_def transitionTo_def startQuiz_def restartQuiz_def
        goToStartScreen_def fadeQuizContentAndUpdate_def)
  have b: "\<not> isTransitioning w \<longrightarrow>
        isTransitioning (transitionTo f w)
        \<and> (state w \<noteq> None \<longrightarrow>
              (\<exists>w1. fadeQuizContentAndUpdate f w = Inr w1 \<and> isTransitioning w1))"
    by (auto simp: transitionTo_def fadeQuizContentAndUpdate_def)
  have c: "isTransitioning w \<and> dispatch e w = Inr w' \<and> \<not> isTransitioning w' \<longrightarrow>
        (e = Timeout \<and> timers w \<noteq> []) \<or> (\<exists>el. e = TransitionEnd el ''opacity'')"
    using dispatch_clears_guard [of e w w'] by blast
  have d: "loaded w \<and> one_transition w \<longrightarrow>
        (\<exists>w1. dispatch e w = Inr w1 \<and> loaded w1 \<and> one_transition w1)"
    using dispatch_inv [of w e] by blast
  have e: "\<exists>w0. init (Loaded d) (boot p) = Inr w0 \<and> loaded w0 \<and> one_transition w0
         \<and> (\<forall>es. \<exists>w1. run_events es w0 = Inr w1 \<and> loaded w1 \<and> one_transition w1)"
    using init_inv [of d p] run_events_inv by blast
  have f: "\<forall>l pn. isTransitioning w \<and> run_listener l pn w = Inr w' \<and> \<not> isTransitioning w' \<longrightarrow>
        pn = ''opacity'' \<and> (l = onInEnd \<or> l = onFadeInEnd)"
    using run_listener_guard [of _ _ w w'] by blast
  from a b c d e f show ?thesis by blast
qed

theorem transition_guard_witness:
  "isTransitioning ex_fading_out
   \<and> stageClick (AnswerBtn 1 0) ex_fading_out = Inr ex_fading_out
   \<and> startQuiz ex_fading_out = ex_fading_out
   \<and> goToStartScreen ex_fading_out = ex_fading_out
   \<and> state ex_fading_out \<noteq> None
   \<and> fadeQuizContentAndUpdate (RenderNextFn 0) ex_fading_out = Inr ex_fading_out
   \<and> \<not> isTransitioning ex_world
   \<and> isTransitioning (transitionTo StartQuizFn ex_world)
   \<and> isTransitioning ex_fading_in
   \<and> dispatch (TransitionEnd QuizContentEl ''opacity'') ex_fading_in = Inr ex_world
   \<and> loaded ex_world \<and> one_transition ex_world
   \<and> loaded ex_fading_out \<and> one_transition ex_fading_out
   \<and> (\<exists>w1. dispatch (StageClick (AnswerBtn 1 0)) ex_world = Inr w1
         \<and> loaded w1 \<and> one_transition w1)"
proof -
  have g: "isTransitioning ex_fading_out" "isTransitioning ex_fading_in"
    "\<not> isTransitioning ex_world" "state ex_fading_out \<noteq> None"
    by (simp_all add: ex_fading_out_def ex_fading_in_def ex_world_def)
  have l: "loaded ex_world" "one_transition ex_world"
    "loaded ex_fading_out" "one_transition ex_fading_out"
    by (simp_all add: loaded_def one_transition_def ex_fading_out_def ex_world_def)
  have fin: "dispatch (TransitionEnd QuizContentEl ''opacity'') ex_fading_in = Inr ex_world"
    by (simp add: transitionend_def listeners_of_def ex_fading_in_def ex_world_def)
  note t1 = transition_guard [of ex_fading_out "AnswerBtn 1 0" StartQuizFn
      "TransitionEnd QuizContentEl ''opacity''" ex_fading_out ex_data ex_page]
  note t2 = transition_guard [of ex_fading_out "AnswerBtn 1 0" "RenderNextFn 0"
      "TransitionEnd QuizContentEl ''opacity''" ex_fading_out ex_data ex_page]
  note t3 = transition_guard [of ex_world "AnswerBtn 1 0" StartQuizFn
      "StageClick (AnswerBtn 1 0)" ex_world ex_data ex_page]
  from t1 g(1) have 1: "stageClick (AnswerBtn 1 0) ex_fading_out = Inr ex_fading_out"
    "startQuiz ex_fading_out = ex_fading_out" "goToStartScreen ex_fading_out = ex_fading_out"
    by blast+
  from t2 g(1,4) have 2: "fadeQuizContentAndUpdate (RenderNextFn 0) ex_fading_out = Inr ex_fading_out"
    by blast
  from t3 g(3) l(1,2) have 3: "isTransitioning (transitionTo StartQuizFn ex_world)"
    "\<exists>w1. dispatch (StageClick (AnswerBtn 1 0)) ex_world = Inr w1
         \<and> loaded w1 \<and> one_transition w1"
    by blast+
  from g l fin 1 2 3 show ?thesis by blast
qed

section \<open>What rankedShoes writes\<close>

lemma those_eq_Some: "those xs = Some ys \<longleftrightarrow> xs = map Some ys"
proof (induction xs arbitrary: ys)
  case Nil
  show ?case by auto
next
  case (Cons x xs)
  show ?case
    by (cases x; cases ys) (auto simp: Cons.IH split: option.splits)
qed

lemma shoe_at_Some: "shoe_at st a = Some s \<Longrightarrow> shoe_at (st @ ex) a = Some s"
  by (auto simp: shoe_at_def nth_append split: if_splits)

lemma map_rate_result:
  "map (shoe_at st) as = map Some ss \<Longrightarrow>
   map_rate rs as st =
     Some ([length st..<length st + length as], st @ map (\<lambda>s. RatedObj (rate rs s)) ss)"
proof (induction as arbitrary: st ss)
  case Nil
  then show ?case by simp
next
  case (Cons a as)
  from Cons.prems obtain s ss' where ss: "ss = s # ss'" "shoe_at st a = Some s"
    "map (shoe_at st) as = map Some ss'"
    by (cases ss) auto
  let ?st1 = "st @ [RatedObj (rate rs s)]"
  have "map (shoe_at ?st1) as = map Some ss'"
  proof -
    have "shoe_at ?st1 x = shoe_at st x" if "x \<in> set as" for x
    proof -
      have "shoe_at st x \<in> set (map (shoe_at st) as)" using that by simp
      then have "shoe_at st x \<in> set (map Some ss')" by (simp only: ss(3))
      then obtain y where "shoe_at st x = Some y" by auto
      then show ?thesis using shoe_at_Some [of st x y] by simp
    qed
    then have "map (shoe_at ?st1) as = map (shoe_at st) as" by simp
    with ss(3) show ?thesis by simp
  qed
  from Cons.IH [OF this]
  have "map_rate rs as ?st1 =
     Some ([Suc (length st)..<Suc (length st) + length as],
           st @ RatedObj (rate rs s) # map (\<lambda>s. RatedObj (rate rs s)) ss')"
    by (simp del: upt_Suc)
  moreover have "length st # [Suc (length st)..<Suc (length st) + length as]
      = [length st..<length st + length (a # as)]"
    by (simp del: upt_Suc add: upt_conv_Cons)
  ultimately show ?case
    using ss by (simp del: upt_Suc add: alloc_def)
qed

lemma set_js_sort: "set (js_sort cmp xs) = set xs"
  using mset_js_sort [of cmp xs] by (metis set_mset_mset)

lemma map_insert_by:
  assumes "\<forall>b\<in>set ys. cmp' a b = cmp (f a) (f b)"
  shows "map f (insert_by cmp' a ys) = insert_by cmp (f a) (map f ys)"
  using assms by (induction ys) simp_all

lemma map_js_sort:
  assumes "\<forall>a\<in>set xs. \<forall>b\<in>set xs. cmp' a b = cmp (f a) (f b)"
  shows "map f (js_sort cmp' xs) = js_sort cmp (map f xs)"
  using assms
proof (induction xs)
  case Nil
  show ?case by simp
next
  case (Cons x xs)
  have ih: "map f (js_sort cmp' xs) = js_sort cmp (map f xs)"
    using Cons by simp
  have "\<forall>b\<in>set (js_sort cmp' xs). cmp' x b = cmp (f x) (f b)"
    using Cons.prems by (simp add: set_js_sort)
  from map_insert_by [where ys = "js_sort cmp' xs" and cmp' = cmp' and a = x and cmp = cmp and f = f, OF this]
  have "map f (insert_by cmp' x (js_sort cmp' xs)) = insert_by cmp (f x) (map f (js_sort cmp' xs))" .
  then show ?case by (simp add: ih)
qed


lemma old_cells_kept:
  assumes "take (length st) st' = st" and "a < length st"
  shows "a < length st' \<and> st' ! a = st ! a"
proof -
  have "length (take (length st) st') = length st"
    by (simp only: assms(1))
  then have len: "length st \<le> length st'" by simp
  have "st' ! a = take (length st) st' ! a" using assms(2) by simp
  with assms len show ?thesis by simp
qed

lemma rated_shoes_rating:
  "x \<in> set (rankedShoes d s) \<Longrightarrow> rating x = get0 (ratings s) (shoe_id x)"
proof -
  assume "x \<in> set (rankedShoes d s)"
  then have "x \<in> set (map (rate (ratings s)) (shoes d))"
    by (simp add: rankedShoes_def set_js_sort)
  then show ?thesis by (auto simp: rate_def)
qed

text \<open>
  C10. Run on a store in which \<^verbatim>\<open>DATA.shoes\<close> is an array of shoe objects and
  \<^verbatim>\<open>state.ratings\<close> an object of numbers, \<open>rankedShoes\<close> returns, and every cell that
  existed before is as it was: the array \<^verbatim>\<open>DATA.shoes\<close> holds the same references in the
  same order, each shoe object and the ratings object are unchanged. The result is a new
  array whose elements are new objects (none is an address that existed before), and
  read through the store they are the ranked list that \<open>rankedShoes\<close> computes from the
  shoes and the ratings. Every ranked shoe carries \<^verbatim>\<open>ratings[id] ?? 0\<close>, so 0 when its id
  has no entry in the ratings.
\<close>

theorem rankedShoes_store_read_only:
  assumes "array_at st shoesArr = Some as" and "ratings_at st ratingsObj = Some rs"
    and "those (map (shoe_at st) as) = Some ss"
  shows "\<exists>r st' bs. rankedShoes_store shoesArr ratingsObj st = Some (r, st')
    \<and> take (length st) st' = st
    \<and> array_at st' shoesArr = Some as \<and> ratings_at st' ratingsObj = Some rs
    \<and> those (map (shoe_at st') as) = Some ss
    \<and> length st \<le> r \<and> array_at st' r = Some bs \<and> (\<forall>b\<in>set bs. length st \<le> b \<and> b \<noteq> r)
    \<and> those (map (rated_at st') bs) =
         Some (rankedShoes \<lparr>shoes = ss, questions = qs\<rparr>
                 \<lparr>screen = sc, currentQuestionId = c, ratings = rs\<rparr>)
    \<and> (\<forall>x\<in>set (rankedShoes \<lparr>shoes = ss, questions = qs\<rparr>
                      \<lparr>screen = sc, currentQuestionId = c, ratings = rs\<rparr>).
          rating x = get0 rs (shoe_id x) \<and> (map_of rs (shoe_id x) = None \<longrightarrow> rating x = 0))"
proof -
  let ?n = "length st"
  let ?k = "length as"
  let ?rated = "map (\<lambda>s. RatedObj (rate rs s)) ss"
  let ?sta = "st @ ?rated"
  let ?fresh = "[?n..<?n + ?k]"
  let ?r = "?n + ?k"
  let ?stb = "?sta @ [ArrayObj ?fresh]"
  let ?oi = "orderIndex ss"
  let ?bs = "js_sort (compareAt ?stb ?oi) ?fresh"
  let ?st' = "?stb[?r := ArrayObj ?bs]"
  let ?f = "\<lambda>b. rate rs (ss ! (b - ?n))"
  let ?ranked = "rankedShoes \<lparr>shoes = ss, questions = qs\<rparr>
                   \<lparr>screen = sc, currentQuestionId = c, ratings = rs\<rparr>"
  have shoes: "map (shoe_at st) as = map Some ss"
    using assms(3) by (simp add: those_eq_Some)
  then have k: "length ss = ?k" by (metis length_map)
  have len1: "length ?sta = ?r" by (simp add: k)
  have "rankedShoes_store shoesArr ratingsObj st =
      Some (length ?sta,
            (?sta @ [ArrayObj ?fresh])
              [length ?sta := ArrayObj (js_sort (compareAt (?sta @ [ArrayObj ?fresh]) ?oi) ?fresh)])"
    by (simp only: rankedShoes_store_def alloc_def assms map_rate_result [OF shoes, of rs]
        option.simps prod.simps)
  then have run: "rankedShoes_store shoesArr ratingsObj st = Some (?r, ?st')"
    by (simp only: len1)
  have frame: "take ?n ?st' = st" by simp
  have old: "a < length ?st' \<and> ?st' ! a = st ! a" if "a < ?n" for a
    using old_cells_kept [OF frame that] .
  have arr: "array_at ?st' shoesArr = Some as"
  proof -
    from assms(1) have "shoesArr < ?n" by (simp add: array_at_def split: if_splits)
    from old [OF this] assms(1) show ?thesis by (simp add: array_at_def split: if_splits)
  qed
  have rat: "ratings_at ?st' ratingsObj = Some rs"
  proof -
    from assms(2) have "ratingsObj < ?n" by (simp add: ratings_at_def split: if_splits)
    from old [OF this] assms(2) show ?thesis by (simp add: ratings_at_def split: if_splits)
  qed
  have items: "those (map (shoe_at ?st') as) = Some ss"
  proof -
    have "shoe_at ?st' a = shoe_at st a" if "a \<in> set as" for a
    proof -
      have "shoe_at st a \<in> set (map (shoe_at st) as)" using that by simp
      then have "shoe_at st a \<in> set (map Some ss)" by (simp only: shoes)
      then have "a < ?n" by (auto simp: shoe_at_def split: if_splits)
      from old [OF this] this show ?thesis by (simp add: shoe_at_def)
    qed
    then have "map (shoe_at ?st') as = map (shoe_at st) as" by simp
    with shoes show ?thesis by (simp add: those_eq_Some)
  qed
  have cell: "?stb ! b = RatedObj (?f b) \<and> ?st' ! b = RatedObj (?f b) \<and> b < length ?stb"
    if "b \<in> set ?fresh" for b
  proof -
    from that have b: "?n \<le> b" "b < ?r" by simp_all
    then have "b - ?n < length ss" using k by simp
    with b have "?stb ! b = RatedObj (?f b)"
      by (simp add: nth_append k)
    with b show ?thesis by (simp add: k)
  qed
  have at2: "rated_at ?stb b = Some (?f b)" if "b \<in> set ?fresh" for b
    using cell [OF that] by (simp add: rated_at_def)
  have at': "rated_at ?st' b = Some (?f b)" if "b \<in> set ?fresh" for b
    using cell [OF that] by (simp add: rated_at_def)
  have sbs: "set ?bs = set ?fresh" by (rule set_js_sort)
  have cmp: "\<forall>a\<in>set ?fresh. \<forall>b\<in>set ?fresh.
      compareAt ?stb ?oi a b = compareShoes ?oi (?f a) (?f b)"
    using at2 by (simp add: compareAt_def)
  have f0: "map ?f ?fresh = map (rate rs) ss"
    by (rule nth_equalityI) (simp_all add: k)
  have "map ?f ?bs = js_sort (compareShoes ?oi) (map ?f ?fresh)"
    using map_js_sort [where xs = ?fresh and cmp' = "compareAt ?stb ?oi"
        and cmp = "compareShoes ?oi" and f = ?f, OF cmp] .
  then have contents: "map ?f ?bs = ?ranked"
    by (simp only: f0) (simp add: rankedShoes_def)
  have "map (rated_at ?st') ?bs = map Some (map ?f ?bs)"
    using at' sbs by simp
  then have res: "those (map (rated_at ?st') ?bs) = Some ?ranked"
    by (simp only: those_eq_Some contents)
  have newarr: "array_at ?st' ?r = Some ?bs"
    by (simp add: array_at_def k)
  have fresh: "\<forall>b\<in>set ?bs. ?n \<le> b \<and> b \<noteq> ?r"
    using sbs by simp
  have zero: "\<forall>x\<in>set ?ranked.
      rating x = get0 rs (shoe_id x) \<and> (map_of rs (shoe_id x) = None \<longrightarrow> rating x = 0)"
    using rated_shoes_rating [of _ "\<lparr>shoes = ss, questions = qs\<rparr>"
        "\<lparr>screen = sc, currentQuestionId = c, ratings = rs\<rparr>"]
    by (simp add: get0_def)
  have le: "?n \<le> ?r" by simp
  from run frame arr rat items le newarr fresh res zero show ?thesis
    by (intro exI [of _ ?r] exI [of _ ?st'] exI [of _ ?bs] conjI) assumption+
qed


theorem rankedShoes_store_read_only_witness:
  "array_at ex_store 3 = Some [0, 1, 2]
   \<and> ratings_at ex_store 4 = Some [(''a'', 5), (''c'', 9)]
   \<and> those (map (shoe_at ex_store) [0, 1, 2]) = Some [shoe_a, shoe_b, shoe_c]
   \<and> rankedShoes_store 3 4 ex_store =
       Some (8, ex_store @
                [RatedObj \<lparr>shoe_id = ''a'', shoe_name = ''Alpha'', rating = 5\<rparr>,
                 RatedObj \<lparr>shoe_id = ''b'', shoe_name = ''Beta'', rating = 0\<rparr>,
                 RatedObj \<lparr>shoe_id = ''c'', shoe_name = ''Gamma'', rating = 9\<rparr>,
                 ArrayObj [7, 5, 6]])
   \<and> (\<exists>r st' bs. rankedShoes_store 3 4 ex_store = Some (r, st')
         \<and> take (length ex_store) st' = ex_store
         \<and> array_at st' 3 = Some [0, 1, 2]
         \<and> length ex_store \<le> r \<and> array_at st' r = Some bs)"
proof -
  have h: "array_at ex_store 3 = Some [0, 1, 2]"
    "ratings_at ex_store 4 = Some [(''a'', 5), (''c'', 9)]"
    "those (map (shoe_at ex_store) [0, 1, 2]) = Some [shoe_a, shoe_b, shoe_c]"
    by (simp_all add: ex_store_def array_at_def ratings_at_def shoe_at_def)
  have v: "rankedShoes_store 3 4 ex_store =
       Some (8, ex_store @
                [RatedObj \<lparr>shoe_id = ''a'', shoe_name = ''Alpha'', rating = 5\<rparr>,
                 RatedObj \<lparr>shoe_id = ''b'', shoe_name = ''Beta'', rating = 0\<rparr>,
                 RatedObj \<lparr>shoe_id = ''c'', shoe_name = ''Gamma'', rating = 9\<rparr>,
                 ArrayObj [7, 5, 6]])"
    by code_simp
  from rankedShoes_store_read_only [OF h]
  have "\<exists>r st' bs. rankedShoes_store 3 4 ex_store = Some (r, st')
         \<and> take (length ex_store) st' = ex_store
         \<and> array_at st' 3 = Some [0, 1, 2]
         \<and> length ex_store \<le> r \<and> array_at st' r = Some bs"
    by blast
  with h v show ?thesis by blast
qed

end
